theory Spec2Isabelle
  imports Complex_Main "HOL-Library.Log_Nat"
begin

section \<open>Values received in a request body\<close>

text \<open>
  The routes read their input with \<^verbatim>\<open>await request.json()\<close> and test it with
  \<^verbatim>\<open>typeof\<close>, truthiness and comparisons. A JavaScript number is a finite value, one
  of the two infinities, or NaN. Every finite double is a rational, and the comparisons
  the routes make on a finite number are exact, so a finite number is modelled by its
  rational value.
\<close>

datatype jsnum = Fin rat | PosInf | NegInf | NaN

datatype json =
    JUndefined
  | JNull
  | JBool bool
  | JNum jsnum
  | JStr string
  | JArr "json list"
  | JObj "(string \<times> json) list"

text \<open>\<^verbatim>\<open>x < q\<close> and \<^verbatim>\<open>x >= q\<close> on a number: every comparison with NaN is false.\<close>

fun num_less :: "jsnum \<Rightarrow> rat \<Rightarrow> bool" where
  "num_less (Fin x) q = (x < q)"
| "num_less PosInf q = False"
| "num_less NegInf q = True"
| "num_less NaN q = False"

fun num_ge :: "jsnum \<Rightarrow> rat \<Rightarrow> bool" where
  "num_ge (Fin x) q = (q \<le> x)"
| "num_ge PosInf q = True"
| "num_ge NegInf q = False"
| "num_ge NaN q = False"

text \<open>\<^verbatim>\<open>!x\<close>: the falsy values are undefined, null, false, 0, NaN and the empty string.\<close>

fun falsy :: "json \<Rightarrow> bool" where
  "falsy JUndefined = True"
| "falsy JNull = True"
| "falsy (JBool b) = (\<not> b)"
| "falsy (JNum (Fin x)) = (x = 0)"
| "falsy (JNum NaN) = True"
| "falsy (JNum n) = False"
| "falsy (JStr s) = (s = [])"
| "falsy (JArr xs) = False"
| "falsy (JObj kvs) = False"

fun is_string :: "json \<Rightarrow> bool" where
  "is_string (JStr s) = True"
| "is_string j = False"

text \<open>
  \<^verbatim>\<open>const { a, b } = body\<close> throws a TypeError when the body is null or undefined, and
  reads \<^verbatim>\<open>undefined\<close> for a property that the value does not have.
\<close>

fun property :: "json \<Rightarrow> string \<Rightarrow> json" where
  "property (JObj kvs) k = (case map_of kvs k of Some v \<Rightarrow> v | None \<Rightarrow> JUndefined)"
| "property j k = JUndefined"

definition destructurable :: "json \<Rightarrow> bool" where
  "destructurable b = (b \<noteq> JNull \<and> b \<noteq> JUndefined)"

text \<open>
  \<^verbatim>\<open>String.prototype.trim\<close> removes white space and line terminators at both ends. A
  string is a list of 8-bit characters here, read as the code points up to U+00FF, so
  the white space is tab, line feed, vertical tab, form feed, carriage return, space
  and the no-break space. Strings with code points beyond U+00FF are not covered.
\<close>

definition is_space :: "char \<Rightarrow> bool" where
  "is_space c = (c \<in> set [CHR 0x09, CHR 0x0A, CHR 0x0B, CHR 0x0C, CHR 0x0D, CHR 0x20, CHR 0xA0])"

definition trim :: "string \<Rightarrow> string" where
  "trim s = rev (dropWhile is_space (rev (dropWhile is_space s)))"

section \<open>The store: polls and votes\<close>

text \<open>
  The tables of \<^verbatim>\<open>migration.sql\<close>. A vote's \<^verbatim>\<open>pollId\<close> and \<^verbatim>\<open>ipAddress\<close> columns are
  nullable, \<^verbatim>\<open>optionIndex\<close> is an INTEGER, and \<^verbatim>\<open>createdAt\<close> is a timestamp, counted
  in milliseconds. The \<^verbatim>\<open>id\<close> of a vote and \<^verbatim>\<open>updatedAt\<close> of a poll are assigned by the
  store and read by no route; they are left out. The store answers every query: a lost
  connection, which every route catches and answers with the status 500, is not part
  of the model. Each route is first written as a function that handles one request
  alone; the steps of a vote submission, and submissions in flight together, follow
  the vote route.
\<close>

record poll =
  poll_id :: string
  question :: string
  options :: "string list"
  poll_createdAt :: int

record vote =
  pollId :: "string option"
  optionIndex :: int
  fingerprint :: string
  ipAddress :: "string option"
  userAgent :: "string option"
  createdAt :: int

record db =
  polls :: "poll list"
  votes :: "vote list"

text \<open>\<^verbatim>\<open>prisma.poll.findUnique({ where: { id: pollId } })\<close>\<close>

definition findUnique_poll :: "db \<Rightarrow> string \<Rightarrow> poll option" where
  "findUnique_poll d pid = find (\<lambda>p. poll_id p = pid) (polls d)"

text \<open>\<^verbatim>\<open>prisma.vote.findMany({ where: { pollId } })\<close>, also the \<^verbatim>\<open>votes\<close> relation of a poll.\<close>

definition findMany_votes :: "db \<Rightarrow> string \<Rightarrow> vote list" where
  "findMany_votes d pid = filter (\<lambda>v. pollId v = Some pid) (votes d)"

section \<open>Result aggregation\<close>

text \<open>
  The same loop stands in the fetch route, the vote route, \<^verbatim>\<open>sendPollUpdate\<close> and
  \<^verbatim>\<open>broadcastPollUpdate\<close>:
  \<^verbatim>\<open>
  const voteCounts = new Array(poll.options.length).fill(0)
  poll.votes.forEach((vote) => {
      if (vote.optionIndex >= 0 && vote.optionIndex < poll.options.length) {
          voteCounts[vote.optionIndex]++
      }
  })
  \<close>
\<close>

fun forEach_count :: "nat \<Rightarrow> vote list \<Rightarrow> nat list \<Rightarrow> nat list" where
  "forEach_count n [] voteCounts = voteCounts"
| "forEach_count n (v # vs) voteCounts =
     forEach_count n vs
       (if 0 \<le> optionIndex v \<and> optionIndex v < int n
        then voteCounts[nat (optionIndex v) := voteCounts ! nat (optionIndex v) + 1]
        else voteCounts)"

definition count_votes :: "poll \<Rightarrow> vote list \<Rightarrow> nat list" where
  "count_votes p vs =
     forEach_count (length (options p)) vs (replicate (length (options p)) 0)"

section \<open>Responses\<close>

datatype response =
    ErrorJson string nat
  | PollJson string string "string list" "nat list" nat int
  | VoteJson "nat list" nat
  | CreatedJson string string "string list" string

text \<open>
  \<^verbatim>\<open>ErrorJson e s\<close> is \<^verbatim>\<open>NextResponse.json({ error: e }, { status: s })\<close>;
  \<^verbatim>\<open>PollJson\<close> carries id, question, options, voteCounts, totalVotes, createdAt;
  \<^verbatim>\<open>VoteJson\<close> carries voteCounts, totalVotes (with \<^verbatim>\<open>success: true\<close>);
  \<^verbatim>\<open>CreatedJson\<close> carries id, question, options, shareUrl.
\<close>

section \<open>Fetch poll: GET /api/polls/[id]\<close>

definition GET_poll :: "db \<Rightarrow> string \<Rightarrow> response" where
  "GET_poll d pid =
     (case findUnique_poll d pid of
        None \<Rightarrow> ErrorJson ''Poll not found'' 404
      | Some p \<Rightarrow>
          (let vs = findMany_votes d pid;
               voteCounts = count_votes p vs;
               totalVotes = length vs
           in PollJson (poll_id p) (question p) (options p) voteCounts totalVotes (poll_createdAt p)))"

section \<open>Submit vote: POST /api/polls/[id]/vote\<close>

text \<open>
  A request carries the route parameter, the body (\<^verbatim>\<open>None\<close> when \<^verbatim>\<open>request.json()\<close>
  rejects because the body is not JSON) and the three headers the route reads
  (\<^verbatim>\<open>None\<close> when \<^verbatim>\<open>headers.get\<close> returns null).
\<close>

record vote_request =
  req_pollId :: string
  req_body :: "json option"
  x_forwarded_for :: "string option"
  x_real_ip :: "string option"
  user_agent :: "string option"

text \<open>
  \<^verbatim>\<open>
  const ipAddress =
      request.headers.get('x-forwarded-for')?.split(',')[0].trim() ||
      request.headers.get('x-real-ip') ||
      'unknown'
  \<close>
  \<^verbatim>\<open>a || b\<close> takes \<^verbatim>\<open>b\<close> when \<^verbatim>\<open>a\<close> is undefined, null or the empty string.
\<close>

definition orElse :: "string option \<Rightarrow> string \<Rightarrow> string" where
  "orElse a b = (case a of None \<Rightarrow> b | Some s \<Rightarrow> if s = [] then b else s)"

definition get_ipAddress :: "vote_request \<Rightarrow> string" where
  "get_ipAddress request =
     orElse (map_option (\<lambda>h. trim (takeWhile (\<lambda>c. c \<noteq> CHR '','') h)) (x_forwarded_for request))
       (orElse (x_real_ip request) ''unknown'')"

definition get_userAgent :: "vote_request \<Rightarrow> string" where
  "get_userAgent request = orElse (user_agent request) ''unknown''"

text \<open>\<^verbatim>\<open>typeof optionIndex !== 'number' || optionIndex < 0\<close>\<close>

fun not_number_or_negative :: "json \<Rightarrow> bool" where
  "not_number_or_negative (JNum n) = num_less n 0"
| "not_number_or_negative j = True"

text \<open>\<^verbatim>\<open>!fingerprint || typeof fingerprint !== 'string' || fingerprint === 'server'\<close>\<close>

definition fingerprint_missing :: "json \<Rightarrow> bool" where
  "fingerprint_missing fp = (falsy fp \<or> \<not> is_string fp \<or> fp = JStr ''server'')"

text \<open>\<^verbatim>\<open>optionIndex >= poll.options.length\<close>, reached only with a number.\<close>

fun index_ge :: "json \<Rightarrow> nat \<Rightarrow> bool" where
  "index_ge (JNum n) len = num_ge n (of_nat len)"
| "index_ge j len = False"

fun the_string :: "json \<Rightarrow> string" where
  "the_string (JStr s) = s"
| "the_string j = []"

text \<open>\<^verbatim>\<open>prisma.vote.findFirst({ where: { pollId, fingerprint } })\<close>\<close>

definition existingVoteByFingerprint :: "db \<Rightarrow> string \<Rightarrow> string \<Rightarrow> vote option" where
  "existingVoteByFingerprint d pid fp =
     find (\<lambda>v. pollId v = Some pid \<and> fingerprint v = fp) (votes d)"

text \<open>
  \<^verbatim>\<open>
  const fiveMinutesAgo = new Date(Date.now() - 60 * 1000)
  const recentVotesByIp = await prisma.vote.findFirst({
      where: { pollId, ipAddress, createdAt: { gte: fiveMinutesAgo } } })
  \<close>
\<close>

definition fiveMinutesAgo :: "int \<Rightarrow> int" where
  "fiveMinutesAgo now = now - 60 * 1000"

definition recentVotesByIp :: "db \<Rightarrow> string \<Rightarrow> string \<Rightarrow> int \<Rightarrow> vote option" where
  "recentVotesByIp d pid ip now =
     find (\<lambda>v. pollId v = Some pid \<and> ipAddress v = Some ip \<and> fiveMinutesAgo now \<le> createdAt v)
       (votes d)"

text \<open>
  \<^verbatim>\<open>prisma.vote.create\<close>. The route hands the number it has tested to the store without
  a test for a whole number; the \<^verbatim>\<open>optionIndex\<close> column is an INTEGER, and the store
  keeps a number with a fraction truncated to a whole number. A body read by
  \<^verbatim>\<open>request.json()\<close> holds no NaN, and an infinity does not pass the tests of the route:
  for these the store refuses the row, which the route's \<^verbatim>\<open>catch\<close> turns into the
  status 500. The row gets the store's current time as \<^verbatim>\<open>createdAt\<close>; the route
  and the store read one clock, the argument \<^verbatim>\<open>now\<close> of the route.
\<close>

fun as_integer :: "json \<Rightarrow> int option" where
  "as_integer (JNum (Fin x)) = Some (if 0 \<le> x then \<lfloor>x\<rfloor> else \<lceil>x\<rceil>)"
| "as_integer j = None"

definition vote_create :: "db \<Rightarrow> vote \<Rightarrow> db" where
  "vote_create d v = d\<lparr>votes := votes d @ [v]\<rparr>"

definition vote_failed :: response where
  "vote_failed = ErrorJson ''Failed to record vote'' 500"

definition POST_vote :: "int \<Rightarrow> vote_request \<Rightarrow> db \<Rightarrow> response \<times> db" where
  "POST_vote now request d =
     (case req_body request of
        None \<Rightarrow> (vote_failed, d)
      | Some body \<Rightarrow>
          if \<not> destructurable body then (vote_failed, d)
          else
            let optionIndex_in = property body ''optionIndex'';
                fingerprint_in = property body ''fingerprint''
            in
              if not_number_or_negative optionIndex_in
              then (ErrorJson ''Invalid option index'' 400, d)
              else if fingerprint_missing fingerprint_in
              then (ErrorJson ''Fingerprint is required'' 400, d)
              else
                let ip = get_ipAddress request;
                    ua = get_userAgent request
                in
                  (case findUnique_poll d (req_pollId request) of
                     None \<Rightarrow> (ErrorJson ''Poll not found'' 404, d)
                   | Some poll \<Rightarrow>
                       if index_ge optionIndex_in (length (options poll))
                       then (ErrorJson ''Invalid option index'' 400, d)
                       else if existingVoteByFingerprint d (req_pollId request)
                                 (the_string fingerprint_in) \<noteq> None
                       then (ErrorJson ''You have already voted in this poll'' 409, d)
                       else if recentVotesByIp d (req_pollId request) ip now \<noteq> None
                       then (ErrorJson ''Please wait before voting again from this network'' 429, d)
                       else
                         (case as_integer optionIndex_in of
                            None \<Rightarrow> (vote_failed, d)
                          | Some i \<Rightarrow>
                              let d' = vote_create d
                                         \<lparr>pollId = Some (req_pollId request), optionIndex = i,
                                          fingerprint = the_string fingerprint_in,
                                          ipAddress = Some ip,
                                          userAgent = Some ua, createdAt = now\<rparr>;
                                  allVotes = findMany_votes d' (req_pollId request);
                                  voteCounts = count_votes poll allVotes
                              in (VoteJson voteCounts (length allVotes), d'))))"

text \<open>
  On success the route also calls \<^verbatim>\<open>broadcastPollUpdate(pollId)\<close> without awaiting it;
  that call reads the store and writes to the open streams only (see below).
\<close>

text \<open>
  What the vote route reads from a request: whether the body can be read at all, and
  the two values it takes from it.
\<close>

definition readable :: "vote_request \<Rightarrow> bool" where
  "readable request = (case req_body request of None \<Rightarrow> False | Some body \<Rightarrow> destructurable body)"

definition optionIndex_of :: "vote_request \<Rightarrow> json" where
  "optionIndex_of request =
     (case req_body request of None \<Rightarrow> JUndefined | Some body \<Rightarrow> property body ''optionIndex'')"

definition fingerprint_of :: "vote_request \<Rightarrow> json" where
  "fingerprint_of request =
     (case req_body request of None \<Rightarrow> JUndefined | Some body \<Rightarrow> property body ''fingerprint'')"

subsection \<open>The steps of a submission\<close>

text \<open>
  The route reaches the store five times, each time behind an \<^verbatim>\<open>await\<close>:
  \<^verbatim>\<open>poll.findUnique\<close>, \<^verbatim>\<open>vote.findFirst\<close> for the fingerprint, \<^verbatim>\<open>vote.findFirst\<close> for the
  origin, \<^verbatim>\<open>vote.create\<close> and \<^verbatim>\<open>vote.findMany\<close>. There is no transaction around them,
  and the table has no unique constraint, so the store may serve another request
  between two of them. A step of a submission is one access to the store together with
  the code that runs on its result until the next access; the first step begins with
  the validation of the body. \<^verbatim>\<open>Date.now()\<close> is read after the fingerprint check, and
  the bound computed from it is carried to the step of the origin check.
\<close>

datatype vote_task =
    Received vote_request
  | PollFound vote_request poll
  | FingerprintFree vote_request poll int
  | OriginFree vote_request poll
  | Created vote_request poll
  | Answered response

fun vote_step :: "int \<Rightarrow> vote_task \<Rightarrow> db \<Rightarrow> vote_task \<times> db" where
  "vote_step now (Received request) d =
     (case req_body request of
        None \<Rightarrow> (Answered vote_failed, d)
      | Some body \<Rightarrow>
          if \<not> destructurable body then (Answered vote_failed, d)
          else if not_number_or_negative (property body ''optionIndex'')
          then (Answered (ErrorJson ''Invalid option index'' 400), d)
          else if fingerprint_missing (property body ''fingerprint'')
          then (Answered (ErrorJson ''Fingerprint is required'' 400), d)
          else
            (case findUnique_poll d (req_pollId request) of
               None \<Rightarrow> (Answered (ErrorJson ''Poll not found'' 404), d)
             | Some poll \<Rightarrow>
                 if index_ge (property body ''optionIndex'') (length (options poll))
                 then (Answered (ErrorJson ''Invalid option index'' 400), d)
                 else (PollFound request poll, d)))"
| "vote_step now (PollFound request poll) d =
     (if existingVoteByFingerprint d (req_pollId request)
           (the_string (fingerprint_of request)) \<noteq> None
      then (Answered (ErrorJson ''You have already voted in this poll'' 409), d)
      else (FingerprintFree request poll (fiveMinutesAgo now), d))"
| "vote_step now (FingerprintFree request poll since) d =
     (if find (\<lambda>v. pollId v = Some (req_pollId request)
                  \<and> ipAddress v = Some (get_ipAddress request) \<and> since \<le> createdAt v)
           (votes d) \<noteq> None
      then (Answered (ErrorJson ''Please wait before voting again from this network'' 429), d)
      else (OriginFree request poll, d))"
| "vote_step now (OriginFree request poll) d =
     (case as_integer (optionIndex_of request) of
        None \<Rightarrow> (Answered vote_failed, d)
      | Some i \<Rightarrow>
          (Created request poll,
           vote_create d
             \<lparr>pollId = Some (req_pollId request), optionIndex = i,
              fingerprint = the_string (fingerprint_of request),
              ipAddress = Some (get_ipAddress request),
              userAgent = Some (get_userAgent request), createdAt = now\<rparr>))"
| "vote_step now (Created request poll) d =
     (let allVotes = findMany_votes d (req_pollId request);
          voteCounts = count_votes poll allVotes
      in (Answered (VoteJson voteCounts (length allVotes)), d))"
| "vote_step now (Answered answer) d = (Answered answer, d)"

text \<open>
  A submission that the store serves without another request in between takes its five
  steps in a row. \<^verbatim>\<open>POST_vote\<close> above is that run (shown below).
\<close>

definition uninterrupted :: "int \<Rightarrow> vote_request \<Rightarrow> db \<Rightarrow> vote_task \<times> db" where
  "uninterrupted now request d =
     (let (t1, d1) = vote_step now (Received request) d;
          (t2, d2) = vote_step now t1 d1;
          (t3, d3) = vote_step now t2 d2;
          (t4, d4) = vote_step now t3 d3
      in vote_step now t4 d4)"

text \<open>
  Submissions in flight together: a schedule names, step by step, the submission that
  takes its next step and the time on the clock.
\<close>

fun run :: "(nat \<times> int) list \<Rightarrow> vote_task list \<Rightarrow> db \<Rightarrow> vote_task list \<times> db" where
  "run [] ts d = (ts, d)"
| "run ((i, now) # schedule) ts d =
     (if i < length ts
      then (case vote_step now (ts ! i) d of (t', d') \<Rightarrow> run schedule (ts[i := t']) d')
      else run schedule ts d)"

section \<open>Create poll: POST /api/polls\<close>

record create_request =
  create_body :: "json option"

text \<open>
  \<^verbatim>\<open>!question || typeof question !== 'string' || question.trim().length === 0\<close>
\<close>

definition question_missing :: "json \<Rightarrow> bool" where
  "question_missing q = (falsy q \<or> \<not> is_string q \<or> length (trim (the_string q)) = 0)"

text \<open>\<^verbatim>\<open>typeof opt === 'string' && opt.trim().length > 0\<close>\<close>

definition valid_option :: "json \<Rightarrow> bool" where
  "valid_option opt = (is_string opt \<and> length (trim (the_string opt)) > 0)"

definition create_failed :: response where
  "create_failed = ErrorJson ''Failed to create poll'' 500"

text \<open>
  \<^verbatim>\<open>shareUrl\<close> is built from \<^verbatim>\<open>process.env.NEXT_PUBLIC_APP_URL || 'http://localhost:3000'\<close>.
\<close>

definition shareUrl :: "string option \<Rightarrow> string \<Rightarrow> string" where
  "shareUrl app_url pid = orElse app_url ''http://localhost:3000'' @ ''/poll/'' @ pid"

text \<open>
  \<^verbatim>\<open>nanoid(10)\<close> is the argument \<^verbatim>\<open>new_id\<close>, and the store's clock is \<^verbatim>\<open>now\<close>. The
  \<^verbatim>\<open>id\<close> column is the primary key of the table: \<^verbatim>\<open>prisma.poll.create\<close> raises when
  the identifier is taken, and the route answers 500.
\<close>

definition POST_polls ::
  "string option \<Rightarrow> string \<Rightarrow> int \<Rightarrow> create_request \<Rightarrow> db \<Rightarrow> response \<times> db" where
  "POST_polls app_url new_id now request d =
     (case create_body request of
        None \<Rightarrow> (create_failed, d)
      | Some body \<Rightarrow>
          if \<not> destructurable body then (create_failed, d)
          else
            let question_in = property body ''question'';
                options_in = property body ''options''
            in
              if question_missing question_in
              then (ErrorJson ''Question is required'' 400, d)
              else
                (case options_in of
                   JArr opts \<Rightarrow>
                     if length opts < 2
                     then (ErrorJson ''At least 2 options are required'' 400, d)
                     else
                       let validOptions = filter valid_option opts in
                         if length validOptions < 2
                         then (ErrorJson ''At least 2 valid options are required'' 400, d)
                         else if length validOptions > 10
                         then (ErrorJson ''Maximum 10 options allowed'' 400, d)
                         else if findUnique_poll d new_id \<noteq> None
                         then (create_failed, d)
                         else
                           let p = \<lparr>poll_id = new_id,
                                    question = trim (the_string question_in),
                                    options = map (\<lambda>opt. trim (the_string opt)) validOptions,
                                    poll_createdAt = now\<rparr>
                           in (CreatedJson (poll_id p) (question p) (options p)
                                 (shareUrl app_url (poll_id p)),
                               d\<lparr>polls := polls d @ [p]\<rparr>)
                 | _ \<Rightarrow> (ErrorJson ''At least 2 options are required'' 400, d)))"

section \<open>Live updates: GET /api/polls/[id]/stream\<close>

text \<open>
  \<^verbatim>\<open>const connections = new Map<string, Set<ReadableStreamDefaultController>>()\<close>.
  A controller is named by a number. A \<^verbatim>\<open>Set\<close> keeps its members once each, in
  insertion order: it is a list, \<^verbatim>\<open>add\<close> appends a member that is not there yet and
  \<^verbatim>\<open>delete\<close> removes it. \<^verbatim>\<open>closed\<close> holds the controllers whose \<^verbatim>\<open>enqueue\<close> throws,
  \<^verbatim>\<open>enqueued\<close> what each controller has been sent. The heartbeat timer is not part of
  the model; its failure path only clears the timer.
\<close>

type_synonym controller = nat

datatype message = Connected | Update "nat list" nat

record streams =
  connections :: "string \<rightharpoonup> controller list"
  closed :: "controller set"
  enqueued :: "controller \<Rightarrow> message list"

definition set_add :: "controller \<Rightarrow> controller list \<Rightarrow> controller list" where
  "set_add c cs = (if c \<in> set cs then cs else cs @ [c])"

definition set_delete :: "controller \<Rightarrow> controller list \<Rightarrow> controller list" where
  "set_delete c cs = removeAll c cs"

text \<open>\<^verbatim>\<open>controller.enqueue(data)\<close>: \<^verbatim>\<open>None\<close> when it throws.\<close>

definition enqueue :: "controller \<Rightarrow> message \<Rightarrow> streams \<Rightarrow> streams option" where
  "enqueue c m st =
     (if c \<in> closed st then None
      else Some (st\<lparr>enqueued := (enqueued st)(c := enqueued st c @ [m])\<rparr>))"

text \<open>
  The message that \<^verbatim>\<open>sendPollUpdate\<close> and \<^verbatim>\<open>broadcastPollUpdate\<close> build, \<^verbatim>\<open>None\<close> when
  the poll is not found (\<^verbatim>\<open>if (!poll) return\<close>).
\<close>

definition update_message :: "db \<Rightarrow> string \<Rightarrow> message option" where
  "update_message d pid =
     (case findUnique_poll d pid of
        None \<Rightarrow> None
      | Some p \<Rightarrow>
          (let vs = findMany_votes d pid;
               voteCounts = count_votes p vs
           in Some (Update voteCounts (length vs))))"

text \<open>\<^verbatim>\<open>sendPollUpdate\<close> catches a failing \<^verbatim>\<open>enqueue\<close> and logs it.\<close>

definition sendPollUpdate :: "db \<Rightarrow> string \<Rightarrow> controller \<Rightarrow> streams \<Rightarrow> streams" where
  "sendPollUpdate d pid c st =
     (case update_message d pid of
        None \<Rightarrow> st
      | Some m \<Rightarrow> (case enqueue c m st of None \<Rightarrow> st | Some st' \<Rightarrow> st'))"

text \<open>
  The start of a stream:
  \<^verbatim>\<open>
  if (!connections.has(pollId)) { connections.set(pollId, new Set()) }
  connections.get(pollId)!.add(controller)
  \<close>
\<close>

definition subscribe :: "string \<Rightarrow> controller \<Rightarrow> streams \<Rightarrow> streams" where
  "subscribe pid c st =
     (let st1 = (if connections st pid = None
                 then st\<lparr>connections := (connections st)(pid \<mapsto> [])\<rparr> else st)
      in st1\<lparr>connections :=
               (connections st1)(pid \<mapsto> set_add c (case connections st1 pid of
                                                      Some cs \<Rightarrow> cs | None \<Rightarrow> []))\<rparr>)"

text \<open>
  The route answers 404 for an unknown poll; otherwise it registers the controller,
  sends the \<^verbatim>\<open>connected\<close> message and the current counts. A throw inside \<^verbatim>\<open>start\<close>
  leaves the registration in place and fails the request.
\<close>

definition GET_stream :: "db \<Rightarrow> string \<Rightarrow> controller \<Rightarrow> streams \<Rightarrow> nat \<times> streams" where
  "GET_stream d pid c st =
     (case findUnique_poll d pid of
        None \<Rightarrow> (404, st)
      | Some p \<Rightarrow>
          (let st1 = subscribe pid c st in
             case enqueue c Connected st1 of
               None \<Rightarrow> (500, st1)
             | Some st2 \<Rightarrow> (200, sendPollUpdate d pid c st2)))"

text \<open>
  The cleanup on \<^verbatim>\<open>abort\<close>:
  \<^verbatim>\<open>
  const pollConnections = connections.get(pollId)
  if (pollConnections) {
      pollConnections.delete(controller)
      if (pollConnections.size === 0) { connections.delete(pollId) }
  }
  try { controller.close() } catch (e) { }
  \<close>
\<close>

definition on_abort :: "string \<Rightarrow> controller \<Rightarrow> streams \<Rightarrow> streams" where
  "on_abort pid c st =
     (let st1 = (case connections st pid of
                   None \<Rightarrow> st
                 | Some cs \<Rightarrow>
                     (let cs' = set_delete c cs in
                        if length cs' = 0
                        then st\<lparr>connections := (connections st)(pid := None)\<rparr>
                        else st\<lparr>connections := (connections st)(pid \<mapsto> cs')\<rparr>))
      in st1\<lparr>closed := insert c (closed st1)\<rparr>)"

text \<open>
  The delivery loop of \<^verbatim>\<open>broadcastPollUpdate\<close>:
  \<^verbatim>\<open>
  pollConnections.forEach((controller) => {
      try { controller.enqueue(encodedData) }
      catch (e) { pollConnections.delete(controller) }
  })
  \<close>
  \<^verbatim>\<open>pollConnections\<close> is the set registered under \<^verbatim>\<open>pollId\<close>; the loop visits every
  member once, and deleting the member being visited does not disturb it.
\<close>

fun forEach_enqueue :: "string \<Rightarrow> message \<Rightarrow> controller list \<Rightarrow> streams \<Rightarrow> streams" where
  "forEach_enqueue pid m [] st = st"
| "forEach_enqueue pid m (c # cs) st =
     forEach_enqueue pid m cs
       (case enqueue c m st of
          Some st' \<Rightarrow> st'
        | None \<Rightarrow>
            (case connections st pid of
               None \<Rightarrow> st
             | Some pollConnections \<Rightarrow>
                 st\<lparr>connections := (connections st)(pid \<mapsto> set_delete c pollConnections)\<rparr>))"

definition broadcastPollUpdate :: "db \<Rightarrow> string \<Rightarrow> streams \<Rightarrow> streams" where
  "broadcastPollUpdate d pid st =
     (case connections st pid of
        None \<Rightarrow> st
      | Some pollConnections \<Rightarrow>
          if length pollConnections = 0 then st
          else
            (case update_message d pid of
               None \<Rightarrow> st
             | Some m \<Rightarrow> forEach_enqueue pid m pollConnections st))"

text \<open>The registry has no empty set: no poll is mapped to a set without members.\<close>

definition no_empty_set :: "streams \<Rightarrow> bool" where
  "no_empty_set st = (\<forall>pid. connections st pid \<noteq> Some [])"

section \<open>Percentages on the poll page\<close>

text \<open>
  \<^verbatim>\<open>
  const getPercentage = (count: number, total: number) => {
    if (total === 0) return 0;
    return Math.round((count / total) * 100);
  };
  \<close>
  The page calls it with a vote count and the total of the poll, whole numbers. The
  quotient and the product are doubles: each is the exact result rounded to the nearest
  number with a significand of 53 bits, a tie going to the even significand. The
  exponent of a positive number \<^verbatim>\<open>x\<close> is the \<^verbatim>\<open>e\<close> with \<^verbatim>\<open>2^e <= x < 2^(e+1)\<close>. The range of
  the exponent is not limited in the model: counts below \<^verbatim>\<open>2^53\<close> are doubles themselves,
  and their quotients and the products with 100 are far from overflow and underflow.
  \<^verbatim>\<open>Math.round\<close> gives the nearest integer, a tie going up.
\<close>

definition exponent :: "rat \<Rightarrow> int" where
  "exponent x =
     (if 1 \<le> x then int (floorlog 2 (nat \<lfloor>x\<rfloor>)) - 1
      else - int (floorlog 2 (nat (\<lceil>1 / x\<rceil> - 1))))"

definition round_half_even :: "rat \<Rightarrow> int" where
  "round_half_even y =
     (let f = \<lfloor>y\<rfloor>; r = y - of_int f
      in if r < 1 / 2 then f else if 1 / 2 < r then f + 1 else if even f then f else f + 1)"

definition to_double :: "rat \<Rightarrow> rat" where
  "to_double x =
     (if x = 0 then 0
      else sgn x * of_int (round_half_even (\<bar>x\<bar> / 2 powi (exponent \<bar>x\<bar> - 52)))
             * 2 powi (exponent \<bar>x\<bar> - 52))"

definition Math_round :: "rat \<Rightarrow> int" where
  "Math_round x = \<lfloor>x + 1 / 2\<rfloor>"

definition getPercentage :: "nat \<Rightarrow> nat \<Rightarrow> int" where
  "getPercentage cnt tot =
     (if tot = 0 then 0
      else Math_round (to_double (to_double (rat_of_nat cnt / rat_of_nat tot) * 100)))"

section \<open>Vocabulary of the properties\<close>

text \<open>A vote is in bounds for a poll when its stored index names one of the options.\<close>

definition in_bounds :: "poll \<Rightarrow> vote \<Rightarrow> bool" where
  "in_bounds p v = (0 \<le> optionIndex v \<and> optionIndex v < int (length (options p)))"

text \<open>The row that the vote route hands to \<^verbatim>\<open>prisma.vote.create\<close>.\<close>

definition new_vote :: "int \<Rightarrow> vote_request \<Rightarrow> int \<Rightarrow> string \<Rightarrow> vote" where
  "new_vote now request i fp =
     \<lparr>pollId = Some (req_pollId request), optionIndex = i, fingerprint = fp,
      ipAddress = Some (get_ipAddress request),
      userAgent = Some (get_userAgent request), createdAt = now\<rparr>"

text \<open>The rejections of the vote route, under the names of the specification.\<close>

abbreviation InvalidOption :: response where
  "InvalidOption \<equiv> ErrorJson ''Invalid option index'' 400"

abbreviation MissingIdentity :: response where
  "MissingIdentity \<equiv> ErrorJson ''Fingerprint is required'' 400"

abbreviation PollNotFound :: response where
  "PollNotFound \<equiv> ErrorJson ''Poll not found'' 404"

abbreviation DuplicateIdentity :: response where
  "DuplicateIdentity \<equiv> ErrorJson ''You have already voted in this poll'' 409"

abbreviation RateLimited :: response where
  "RateLimited \<equiv> ErrorJson ''Please wait before voting again from this network'' 429"

text \<open>
  A submission passes the validation of its body when the body can be read, the option
  index is a number that is not negative, and the fingerprint is a non-empty string
  other than \<^verbatim>\<open>server\<close>.
\<close>

definition passes_validation :: "vote_request \<Rightarrow> bool" where
  "passes_validation request =
     (readable request \<and> \<not> not_number_or_negative (optionIndex_of request)
      \<and> \<not> fingerprint_missing (fingerprint_of request))"

text \<open>
  A submission reaches the duplicate check when it passes the validation, its poll
  exists and its option index is below the number of options; it reaches the rate-limit
  check when, in addition, no vote with its fingerprint is in the ledger for the poll.
\<close>

definition reaches_duplicate_check :: "db \<Rightarrow> vote_request \<Rightarrow> bool" where
  "reaches_duplicate_check d request =
     (passes_validation request \<and>
      (case findUnique_poll d (req_pollId request) of
         None \<Rightarrow> False
       | Some p \<Rightarrow> \<not> index_ge (optionIndex_of request) (length (options p))))"

definition reaches_rate_limit :: "db \<Rightarrow> vote_request \<Rightarrow> bool" where
  "reaches_rate_limit d request =
     (reaches_duplicate_check d request \<and>
      existingVoteByFingerprint d (req_pollId request) (the_string (fingerprint_of request)) = None)"

text \<open>
  The ledger holds at most one vote for every pair of a poll and a fingerprint.
\<close>

definition one_vote_per_identity :: "db \<Rightarrow> bool" where
  "one_vote_per_identity d =
     (\<forall>pid fp. length (filter (\<lambda>v. pollId v = Some pid \<and> fingerprint v = fp) (votes d)) \<le> 1)"

text \<open>
  A history of the store in which the requests are handled one after the other: every
  request takes all its steps before the next one starts.
\<close>

datatype request =
    CreatePoll "string option" string int create_request
  | SubmitVote int vote_request

fun handle :: "request \<Rightarrow> db \<Rightarrow> db" where
  "handle (CreatePoll app_url new_id now r) d = snd (POST_polls app_url new_id now r d)"
| "handle (SubmitVote now r) d = snd (POST_vote now r d)"

fun handle_all :: "request list \<Rightarrow> db \<Rightarrow> db" where
  "handle_all [] d = d"
| "handle_all (r # rs) d = handle_all rs (handle r d)"

text \<open>
  Every vote of the ledger belongs to a poll of the store and is in bounds for it.
\<close>

definition votes_in_bounds :: "db \<Rightarrow> bool" where
  "votes_in_bounds d =
     (\<forall>v\<in>set (votes d). \<exists>pid p. pollId v = Some pid \<and> findUnique_poll d pid = Some p
        \<and> in_bounds p v)"

text \<open>
  The exact percentage is a tie when 100 * count / total lies halfway between two
  integers.
\<close>

definition exact_tie :: "nat \<Rightarrow> nat \<Rightarrow> bool" where
  "exact_tie cnt tot = ((200 * cnt + tot) mod (2 * tot) = 0)"

text \<open>
  A poll can be created from the body of a request when the question is a string that
  is not empty after trimming and the options are an array of which at least 2 and at
  most 10 entries are strings that are not empty after trimming.
\<close>

definition creatable :: "json \<Rightarrow> bool" where
  "creatable body =
     (\<exists>q opts. property body ''question'' = JStr q \<and> trim q \<noteq> []
        \<and> property body ''options'' = JArr opts
        \<and> 2 \<le> length (filter valid_option opts) \<and> length (filter valid_option opts) \<le> 10)"

subsection \<open>Example data\<close>

definition poll_AB :: poll where
  "poll_AB = \<lparr>poll_id = ''p1'', question = ''Tea or coffee?'', options = [''A'', ''B''],
              poll_createdAt = 0\<rparr>"

definition a_vote :: "int \<Rightarrow> string \<Rightarrow> string \<Rightarrow> int \<Rightarrow> vote" where
  "a_vote i fp ip t =
     \<lparr>pollId = Some ''p1'', optionIndex = i, fingerprint = fp, ipAddress = Some ip,
      userAgent = Some ''unknown'', createdAt = t\<rparr>"

definition db_fresh :: db where
  "db_fresh = \<lparr>polls = [poll_AB], votes = []\<rparr>"

definition db_stale :: db where
  "db_stale = \<lparr>polls = [poll_AB], votes = [a_vote 5 ''x1'' ''10.0.0.1'' 1000]\<rparr>"

definition db_mixed :: db where
  "db_mixed = \<lparr>polls = [poll_AB],
               votes = [a_vote 0 ''x1'' ''10.0.0.1'' 1000, a_vote 5 ''x2'' ''10.0.0.2'' 2000]\<rparr>"

definition db_one :: db where
  "db_one = \<lparr>polls = [poll_AB], votes = [a_vote 0 ''x1'' ''10.0.0.1'' 1000]\<rparr>"

definition vote_req :: "string \<Rightarrow> json \<Rightarrow> json \<Rightarrow> string option \<Rightarrow> vote_request" where
  "vote_req pid i fp xff =
     \<lparr>req_pollId = pid,
      req_body = Some (JObj [(''optionIndex'', i), (''fingerprint'', fp)]),
      x_forwarded_for = xff, x_real_ip = None, user_agent = None\<rparr>"

definition vote_x1_a :: vote_request where
  "vote_x1_a = vote_req ''p1'' (JNum (Fin 0)) (JStr ''x1'') (Some ''10.0.0.1'')"

definition vote_x1_b :: vote_request where
  "vote_x1_b = vote_req ''p1'' (JNum (Fin 1)) (JStr ''x1'') (Some ''10.0.0.2'')"

definition streams_one :: streams where
  "streams_one = \<lparr>connections = [''p1'' \<mapsto> [1]], closed = {}, enqueued = (\<lambda>c. [])\<rparr>"

definition streams_stale :: streams where
  "streams_stale = \<lparr>connections = [''p1'' \<mapsto> [1]], closed = {1}, enqueued = (\<lambda>c. [])\<rparr>"

definition streams_two :: streams where
  "streams_two = \<lparr>connections = [''p1'' \<mapsto> [1, 2]], closed = {1}, enqueued = (\<lambda>c. [])\<rparr>"

definition create_req :: "json \<Rightarrow> json \<Rightarrow> create_request" where
  "create_req q opts = \<lparr>create_body = Some (JObj [(''question'', q), (''options'', opts)])\<rparr>"

definition db_none :: db where
  "db_none = \<lparr>polls = [], votes = []\<rparr>"

lemmas vote_route_defs =
  POST_vote_def destructurable_def fingerprint_missing_def get_ipAddress_def get_userAgent_def
  orElse_def findUnique_poll_def findMany_votes_def existingVoteByFingerprint_def
  recentVotesByIp_def fiveMinutesAgo_def vote_create_def count_votes_def vote_failed_def
  trim_def is_space_def new_vote_def readable_def optionIndex_of_def fingerprint_of_def
  passes_validation_def reaches_duplicate_check_def reaches_rate_limit_def

section \<open>Properties of the aggregation\<close>

lemma length_forEach_count: "length (forEach_count n vs xs) = length xs"
  by (induction vs arbitrary: xs) simp_all

lemma sum_list_forEach_count:
  "n \<le> length xs \<Longrightarrow>
   sum_list (forEach_count n vs xs) =
     sum_list xs + length (filter (\<lambda>v. 0 \<le> optionIndex v \<and> optionIndex v < int n) vs)"
proof (induction vs arbitrary: xs)
  case Nil
  then show ?case by simp
next
  case (Cons v vs)
  show ?case
  proof (cases "0 \<le> optionIndex v \<and> optionIndex v < int n")
    case True
    then have k: "nat (optionIndex v) < length xs"
      using Cons.prems by linarith
    have "sum_list (xs[nat (optionIndex v) := xs ! nat (optionIndex v) + 1]) = sum_list xs + 1"
      using k by (simp add: sum_list_update)
    then show ?thesis
      using True Cons.IH[of "xs[nat (optionIndex v) := xs ! nat (optionIndex v) + 1]"] Cons.prems
      by simp
  next
    case False
    then show ?thesis
      using Cons.IH[of xs] Cons.prems by auto
  qed
qed

lemma length_count_votes: "length (count_votes p vs) = length (options p)"
  by (simp add: count_votes_def length_forEach_count)

lemma sum_list_count_votes: "sum_list (count_votes p vs) = length (filter (in_bounds p) vs)"
  unfolding count_votes_def in_bounds_def
  by (simp add: sum_list_forEach_count)

lemma length_filter_eq_iff: "length (filter P xs) = length xs \<longleftrightarrow> (\<forall>x\<in>set xs. P x)"
  by (metis filter_True length_filter_less less_irrefl filter_id_conv)

section \<open>Properties of the vote route\<close>

lemma POST_vote_unreadable:
  "\<not> readable r \<Longrightarrow> POST_vote now r d = (vote_failed, d)"
  by (auto simp: POST_vote_def readable_def split: option.splits)

lemma POST_vote_readable:
  assumes "readable r"
  shows "POST_vote now r d =
     (if not_number_or_negative (optionIndex_of r) then (InvalidOption, d)
      else if fingerprint_missing (fingerprint_of r) then (MissingIdentity, d)
      else
        (case findUnique_poll d (req_pollId r) of
           None \<Rightarrow> (PollNotFound, d)
         | Some p \<Rightarrow>
             if index_ge (optionIndex_of r) (length (options p)) then (InvalidOption, d)
             else if existingVoteByFingerprint d (req_pollId r) (the_string (fingerprint_of r)) \<noteq> None
             then (DuplicateIdentity, d)
             else if recentVotesByIp d (req_pollId r) (get_ipAddress r) now \<noteq> None
             then (RateLimited, d)
             else
               (case as_integer (optionIndex_of r) of
                  None \<Rightarrow> (vote_failed, d)
                | Some i \<Rightarrow>
                    (VoteJson
                       (count_votes p (findMany_votes
                          (vote_create d (new_vote now r i (the_string (fingerprint_of r))))
                          (req_pollId r)))
                       (length (findMany_votes
                          (vote_create d (new_vote now r i (the_string (fingerprint_of r))))
                          (req_pollId r))),
                     vote_create d (new_vote now r i (the_string (fingerprint_of r)))))))"
  using assms
  by (auto simp: POST_vote_def readable_def optionIndex_of_def fingerprint_of_def new_vote_def
      Let_def split: option.splits)

lemma POST_vote_state:
  "snd (POST_vote now r d) = d \<or>
   (\<exists>i. reaches_rate_limit d r
      \<and> recentVotesByIp d (req_pollId r) (get_ipAddress r) now = None
      \<and> snd (POST_vote now r d) = vote_create d (new_vote now r i (the_string (fingerprint_of r))))"
proof (cases "readable r")
  case False
  then show ?thesis by (simp add: POST_vote_unreadable)
next
  case True
  show ?thesis
    unfolding POST_vote_readable[OF True]
    using True
    by (auto simp: reaches_rate_limit_def reaches_duplicate_check_def passes_validation_def
        split: option.splits)
qed

lemma existing_None_iff:
  "existingVoteByFingerprint d pid fp = None \<longleftrightarrow>
   filter (\<lambda>v. pollId v = Some pid \<and> fingerprint v = fp) (votes d) = []"
  by (auto simp: existingVoteByFingerprint_def find_None_iff filter_empty_conv)

lemma POST_vote_one_vote_per_identity:
  assumes "one_vote_per_identity d"
  shows "one_vote_per_identity (snd (POST_vote now r d))"
proof -
  from POST_vote_state[of now r d] show ?thesis
  proof
    assume "snd (POST_vote now r d) = d"
    then show ?thesis using assms by simp
  next
    assume "\<exists>i. reaches_rate_limit d r
      \<and> recentVotesByIp d (req_pollId r) (get_ipAddress r) now = None
      \<and> snd (POST_vote now r d) = vote_create d (new_vote now r i (the_string (fingerprint_of r)))"
    then obtain i where
      e: "existingVoteByFingerprint d (req_pollId r) (the_string (fingerprint_of r)) = None"
      and s: "snd (POST_vote now r d) = vote_create d (new_vote now r i (the_string (fingerprint_of r)))"
      by (auto simp: reaches_rate_limit_def)
    have "length (filter (\<lambda>v. pollId v = Some pid \<and> fingerprint v = fp)
            (votes d @ [new_vote now r i (the_string (fingerprint_of r))])) \<le> 1" for pid fp
    proof (cases "pid = req_pollId r \<and> fp = the_string (fingerprint_of r)")
      case True
      then show ?thesis using e by (simp add: existing_None_iff new_vote_def)
    next
      case False
      then show ?thesis using assms by (auto simp: one_vote_per_identity_def new_vote_def)
    qed
    then show ?thesis by (simp add: s one_vote_per_identity_def vote_create_def)
  qed
qed

lemma POST_polls_votes: "votes (snd (POST_polls app_url new_id now r d)) = votes d"
  by (auto simp: POST_polls_def Let_def split: option.splits json.splits)

lemma handle_one_vote_per_identity:
  "one_vote_per_identity d \<Longrightarrow> one_vote_per_identity (handle q d)"
proof (cases q)
  case (CreatePoll a n t r)
  assume "one_vote_per_identity d"
  then show ?thesis using POST_polls_votes[of a n t r d]
    by (simp add: CreatePoll one_vote_per_identity_def)
next
  case (SubmitVote t r)
  assume "one_vote_per_identity d"
  then show ?thesis by (simp add: SubmitVote POST_vote_one_vote_per_identity)
qed

lemma handle_all_one_vote_per_identity:
  "one_vote_per_identity d \<Longrightarrow> one_vote_per_identity (handle_all rs d)"
  by (induction rs arbitrary: d) (simp_all add: handle_one_vote_per_identity)

lemma duplicate_rejected:
  assumes "fingerprint_of r = JStr fp"
    and "\<exists>v\<in>set (votes d). pollId v = Some (req_pollId r) \<and> fingerprint v = fp"
  shows "snd (POST_vote now r d) = d"
    and "\<exists>e s. fst (POST_vote now r d) = ErrorJson e s"
    and "reaches_duplicate_check d r \<Longrightarrow> POST_vote now r d = (DuplicateIdentity, d)"
proof -
  have ex: "existingVoteByFingerprint d (req_pollId r) (the_string (fingerprint_of r)) \<noteq> None"
    using assms by (auto simp: existingVoteByFingerprint_def find_None_iff)
  show "snd (POST_vote now r d) = d"
    using POST_vote_state[of now r d] ex by (auto simp: reaches_rate_limit_def)
  show "\<exists>e s. fst (POST_vote now r d) = ErrorJson e s"
  proof (cases "readable r")
    case False
    then show ?thesis by (simp add: POST_vote_unreadable vote_failed_def)
  next
    case True
    show ?thesis unfolding POST_vote_readable[OF True] using ex
      by (auto split: option.splits)
  qed
  show "POST_vote now r d = (DuplicateIdentity, d)" if "reaches_duplicate_check d r"
  proof -
    from that have rd: "readable r" by (simp add: reaches_duplicate_check_def passes_validation_def)
    show ?thesis unfolding POST_vote_readable[OF rd] using that ex
      by (auto simp: reaches_duplicate_check_def passes_validation_def split: option.splits)
  qed
qed

lemma length_count_votes_update:
  "update_message d pid = Some m \<Longrightarrow>
   \<exists>p vc t. m = Update vc t \<and> findUnique_poll d pid = Some p \<and> length vc = length (options p)"
  by (auto simp: update_message_def Let_def length_count_votes split: option.splits)

lemma enqueue_enqueued:
  "enqueue c m st = Some st' \<Longrightarrow> set (enqueued st' c') \<subseteq> insert m (set (enqueued st c'))"
  by (auto simp: enqueue_def split: if_splits)

lemma forEach_enqueue_enqueued:
  "set (enqueued (forEach_enqueue pid m cs st) c') \<subseteq> insert m (set (enqueued st c'))"
proof (induction cs arbitrary: st)
  case Nil
  then show ?case by auto
next
  case (Cons c cs)
  show ?case
  proof (cases "enqueue c m st")
    case None
    then show ?thesis
      using Cons.IH[of "case connections st pid of None \<Rightarrow> st
          | Some pollConnections \<Rightarrow>
              st\<lparr>connections := (connections st)(pid \<mapsto> set_delete c pollConnections)\<rparr>"]
      by (auto split: option.splits)
  next
    case (Some st')
    then show ?thesis
      using Cons.IH[of st'] enqueue_enqueued[OF Some, of c'] by auto
  qed
qed

lemma broadcast_enqueued:
  "m \<in> set (enqueued (broadcastPollUpdate d pid st) c) \<Longrightarrow>
   m \<in> set (enqueued st c) \<or> update_message d pid = Some m"
  using forEach_enqueue_enqueued[of pid _ _ st c]
  by (auto simp: broadcastPollUpdate_def split: option.splits if_splits)

lemma sendPollUpdate_enqueued:
  "m \<in> set (enqueued (sendPollUpdate d pid c st) c') \<Longrightarrow>
   m \<in> set (enqueued st c') \<or> update_message d pid = Some m"
  using enqueue_enqueued[of c _ st _ c']
  by (auto simp: sendPollUpdate_def split: option.splits)

lemma as_integer_half: "as_integer (JNum (Fin (1 / 2))) = Some 0"
proof -
  have "\<lfloor>1 / 2 :: rat\<rfloor> = 0" by (simp add: floor_eq_iff)
  then show ?thesis by simp
qed

lemma recent_None_iff:
  "recentVotesByIp d pid ip now = None \<longleftrightarrow>
   \<not> (\<exists>v\<in>set (votes d). pollId v = Some pid \<and> ipAddress v = Some ip \<and> now - 60000 \<le> createdAt v)"
  by (auto simp: recentVotesByIp_def fiveMinutesAgo_def find_None_iff)

lemma POST_vote_reaches_rate_limit:
  assumes "reaches_rate_limit d r"
  shows "POST_vote now r d =
     (if recentVotesByIp d (req_pollId r) (get_ipAddress r) now \<noteq> None then (RateLimited, d)
      else
        (case as_integer (optionIndex_of r) of
           None \<Rightarrow> (vote_failed, d)
         | Some i \<Rightarrow>
             (VoteJson
                (count_votes (the (findUnique_poll d (req_pollId r)))
                   (findMany_votes (vote_create d (new_vote now r i (the_string (fingerprint_of r))))
                      (req_pollId r)))
                (length (findMany_votes
                   (vote_create d (new_vote now r i (the_string (fingerprint_of r))))
                   (req_pollId r))),
              vote_create d (new_vote now r i (the_string (fingerprint_of r))))))"
proof -
  from assms have rd: "readable r"
    by (simp add: reaches_rate_limit_def reaches_duplicate_check_def passes_validation_def)
  show ?thesis
    unfolding POST_vote_readable[OF rd] using assms
    by (auto simp: reaches_rate_limit_def reaches_duplicate_check_def passes_validation_def
        split: option.splits)
qed

lemma RateLimited_reaches:
  assumes "fst (POST_vote now r d) = RateLimited"
  shows "reaches_rate_limit d r"
proof (cases "readable r")
  case False
  then show ?thesis using assms by (simp add: POST_vote_unreadable vote_failed_def)
next
  case True
  show ?thesis
    using assms True unfolding POST_vote_readable[OF True]
    by (auto simp: reaches_rate_limit_def reaches_duplicate_check_def passes_validation_def
        vote_failed_def split: option.splits if_splits)
qed

lemma integer_index_tests:
  "not_number_or_negative (JNum (Fin (rat_of_int k))) = (k < 0)"
  "index_ge (JNum (Fin (rat_of_int k))) n = (int n \<le> k)"
proof -
  show "not_number_or_negative (JNum (Fin (rat_of_int k))) = (k < 0)"
    by simp
  have "(rat_of_nat n \<le> rat_of_int k) = (int n \<le> k)"
    by (metis of_int_le_iff of_int_of_nat_eq)
  then show "index_ge (JNum (Fin (rat_of_int k))) n = (int n \<le> k)"
    by simp
qed

lemma POST_vote_VoteJson:
  assumes "POST_vote now r d = (VoteJson vc t, d')"
  shows "\<exists>i. reaches_rate_limit d r
      \<and> recentVotesByIp d (req_pollId r) (get_ipAddress r) now = None
      \<and> as_integer (optionIndex_of r) = Some i
      \<and> d' = vote_create d (new_vote now r i (the_string (fingerprint_of r)))"
proof (cases "readable r")
  case False
  then show ?thesis using assms by (simp add: POST_vote_unreadable vote_failed_def)
next
  case True
  show ?thesis
    using assms True unfolding POST_vote_readable[OF True]
    by (auto simp: reaches_rate_limit_def reaches_duplicate_check_def passes_validation_def
        vote_failed_def split: option.splits if_splits)
qed

lemma POST_vote_answers:
  "(\<exists>e s. fst (POST_vote now r d) = ErrorJson e s)
   \<or> (\<exists>vc t. fst (POST_vote now r d) = VoteJson vc t)"
proof (cases "readable r")
  case False
  then show ?thesis by (simp add: POST_vote_unreadable vote_failed_def)
next
  case True
  show ?thesis
    unfolding POST_vote_readable[OF True]
    by (auto simp: vote_failed_def split: option.splits)
qed

lemma headerless_unknown:
  "x_forwarded_for r = None \<Longrightarrow> x_real_ip r = None \<Longrightarrow> get_ipAddress r = ''unknown''"
  by (simp add: get_ipAddress_def orElse_def)

lemma as_integer_in_bounds:
  assumes "as_integer j = Some i" and "\<not> not_number_or_negative j" and "\<not> index_ge j n"
  shows "0 \<le> i \<and> i < int n"
proof -
  from assms(1) obtain x where j: "j = JNum (Fin x)"
    by (cases j rule: as_integer.cases) auto
  have x: "0 \<le> x" "x < rat_of_nat n"
    using assms(2,3) by (simp_all add: j not_le not_less)
  have i: "i = \<lfloor>x\<rfloor>"
    using assms(1) x(1) by (simp add: j)
  have "\<lfloor>x\<rfloor> < int n"
    using x(2) by (simp add: floor_less_iff)
  then show ?thesis
    using x(1) by (simp add: i)
qed

lemma POST_vote_polls: "polls (snd (POST_vote now r d)) = polls d"
  using POST_vote_state[of now r d] by (auto simp: vote_create_def)

lemma POST_vote_votes_in_bounds:
  assumes "votes_in_bounds d"
  shows "votes_in_bounds (snd (POST_vote now r d))"
proof (cases "readable r")
  case False
  then show ?thesis using assms by (simp add: POST_vote_unreadable)
next
  case True
  have keep: "findUnique_poll (vote_create d v) pid = findUnique_poll d pid" for v pid
    by (simp add: findUnique_poll_def vote_create_def)
  have new: "votes_in_bounds (vote_create d (new_vote now r i fp))"
    if "findUnique_poll d (req_pollId r) = Some p" and "0 \<le> i \<and> i < int (length (options p))"
    for i fp p
    using assms that unfolding votes_in_bounds_def keep
    by (auto simp: vote_create_def new_vote_def in_bounds_def)
  show ?thesis
    unfolding POST_vote_readable[OF True]
    using assms new as_integer_in_bounds
    by (auto split: option.splits)
qed

lemma find_append_keeps: "find P xs = Some x \<Longrightarrow> find P (xs @ ys) = Some x"
  by (induction xs) (auto split: if_splits)

lemma POST_polls_state:
  "snd (POST_polls app_url new_id now r d) = d
   \<or> (\<exists>p. snd (POST_polls app_url new_id now r d) = d\<lparr>polls := polls d @ [p]\<rparr>)"
  by (auto simp: POST_polls_def Let_def split: option.splits json.splits)

lemma POST_polls_votes_in_bounds:
  assumes "votes_in_bounds d"
  shows "votes_in_bounds (snd (POST_polls app_url new_id now r d))"
proof -
  have "votes_in_bounds (d\<lparr>polls := polls d @ [p]\<rparr>)" for p
    using assms unfolding votes_in_bounds_def findUnique_poll_def
    by (fastforce simp: find_append_keeps)
  then show ?thesis
    using POST_polls_state[of app_url new_id now r d] assms by auto
qed

lemma handle_votes_in_bounds: "votes_in_bounds d \<Longrightarrow> votes_in_bounds (handle q d)"
  by (cases q) (simp_all add: POST_vote_votes_in_bounds POST_polls_votes_in_bounds)

lemma handle_all_votes_in_bounds: "votes_in_bounds d \<Longrightarrow> votes_in_bounds (handle_all rs d)"
  by (induction rs arbitrary: d) (simp_all add: handle_votes_in_bounds)

lemma votes_in_bounds_sum:
  assumes "votes_in_bounds d" and "findUnique_poll d pid = Some p"
  shows "sum_list (count_votes p (findMany_votes d pid)) = length (findMany_votes d pid)"
proof -
  have "\<forall>v\<in>set (findMany_votes d pid). in_bounds p v"
    using assms by (fastforce simp: votes_in_bounds_def findMany_votes_def)
  then show ?thesis
    by (simp add: sum_list_count_votes length_filter_eq_iff)
qed

text \<open>
  Claim C1, as stated: for every poll and every state of the vote ledger, the counts of
  the snapshot add up to its total. It fails on a ledger that holds a vote whose stored
  index is out of bounds: for the poll with the options A and B and one vote for index 5,
  the fetch route and the broadcast both report the counts 0, 0 and the total 1.
\<close>

theorem sum_counts_total_counterexample:
  "GET_poll db_stale ''p1'' = PollJson ''p1'' ''Tea or coffee?'' [''A'', ''B''] [0, 0] 1 0
   \<and> update_message db_stale ''p1'' = Some (Update [0, 0] 1)
   \<and> sum_list [0, 0] \<noteq> (1 :: nat)"
  by (simp add: GET_poll_def update_message_def findUnique_poll_def findMany_votes_def
      count_votes_def poll_AB_def a_vote_def db_stale_def)

text \<open>
  Claim C1, amended: for every poll that exists and every state of the vote ledger, the
  fetch route and the broadcast report the same snapshot; the total is the number of the
  poll's votes, the counts add up to the number of those votes that are in bounds, so to
  the total at most, and to the total exactly when no vote of the poll is out of bounds.
  In a store that the two POST routes have built from a ledger without votes no vote is
  out of bounds, and the counts add up to the total.
\<close>

theorem sum_counts_in_bounds:
  "(findUnique_poll d pid = Some p \<longrightarrow>
      (\<exists>voteCounts totalVotes.
          GET_poll d pid =
            PollJson (poll_id p) (question p) (options p) voteCounts totalVotes (poll_createdAt p)
        \<and> update_message d pid = Some (Update voteCounts totalVotes)
        \<and> totalVotes = length (findMany_votes d pid)
        \<and> sum_list voteCounts = length (filter (in_bounds p) (findMany_votes d pid))
        \<and> sum_list voteCounts \<le> totalVotes
        \<and> (sum_list voteCounts = totalVotes
             \<longleftrightarrow> (\<forall>v \<in> set (findMany_votes d pid). in_bounds p v))))
   \<and> (votes d0 = [] \<and> findUnique_poll (handle_all rs d0) pid' = Some p' \<longrightarrow>
        sum_list (count_votes p' (findMany_votes (handle_all rs d0) pid'))
          = length (findMany_votes (handle_all rs d0) pid'))"
proof (intro conjI impI)
  assume p: "findUnique_poll d pid = Some p"
  let ?vs = "findMany_votes d pid"
  have g: "GET_poll d pid =
      PollJson (poll_id p) (question p) (options p) (count_votes p ?vs) (length ?vs) (poll_createdAt p)"
    using p by (simp add: GET_poll_def Let_def)
  have u: "update_message d pid = Some (Update (count_votes p ?vs) (length ?vs))"
    using p by (simp add: update_message_def Let_def)
  have s: "sum_list (count_votes p ?vs) = length (filter (in_bounds p) ?vs)"
    by (rule sum_list_count_votes)
  have l: "sum_list (count_votes p ?vs) \<le> length ?vs"
    by (simp add: s)
  have e: "sum_list (count_votes p ?vs) = length ?vs \<longleftrightarrow> (\<forall>v \<in> set ?vs. in_bounds p v)"
    by (simp add: s length_filter_eq_iff)
  show "\<exists>voteCounts totalVotes.
          GET_poll d pid =
            PollJson (poll_id p) (question p) (options p) voteCounts totalVotes (poll_createdAt p)
        \<and> update_message d pid = Some (Update voteCounts totalVotes)
        \<and> totalVotes = length (findMany_votes d pid)
        \<and> sum_list voteCounts = length (filter (in_bounds p) (findMany_votes d pid))
        \<and> sum_list voteCounts \<le> totalVotes
        \<and> (sum_list voteCounts = totalVotes
             \<longleftrightarrow> (\<forall>v \<in> set (findMany_votes d pid). in_bounds p v))"
    using g u s l e by blast
next
  assume a: "votes d0 = [] \<and> findUnique_poll (handle_all rs d0) pid' = Some p'"
  then have "votes_in_bounds d0"
    by (simp add: votes_in_bounds_def)
  then have "votes_in_bounds (handle_all rs d0)"
    by (rule handle_all_votes_in_bounds)
  then show "sum_list (count_votes p' (findMany_votes (handle_all rs d0) pid'))
          = length (findMany_votes (handle_all rs d0) pid')"
    using a by (simp add: votes_in_bounds_sum)
qed

theorem sum_counts_in_bounds_witness:
  "findUnique_poll db_mixed ''p1'' = Some poll_AB
   \<and> (\<exists>voteCounts totalVotes.
        GET_poll db_mixed ''p1'' =
          PollJson (poll_id poll_AB) (question poll_AB) (options poll_AB) voteCounts totalVotes
            (poll_createdAt poll_AB)
      \<and> update_message db_mixed ''p1'' = Some (Update voteCounts totalVotes)
      \<and> totalVotes = length (findMany_votes db_mixed ''p1'')
      \<and> sum_list voteCounts = length (filter (in_bounds poll_AB) (findMany_votes db_mixed ''p1''))
      \<and> sum_list voteCounts \<le> totalVotes
      \<and> (sum_list voteCounts = totalVotes
           \<longleftrightarrow> (\<forall>v \<in> set (findMany_votes db_mixed ''p1''). in_bounds poll_AB v)))
   \<and> votes db_fresh = []
   \<and> findUnique_poll
        (handle_all [SubmitVote 5000 (vote_req ''p1'' (JNum (Fin 0)) (JStr ''x1'') None)] db_fresh)
        ''p1'' = Some poll_AB
   \<and> sum_list (count_votes poll_AB (findMany_votes
        (handle_all [SubmitVote 5000 (vote_req ''p1'' (JNum (Fin 0)) (JStr ''x1'') None)] db_fresh)
        ''p1''))
      = length (findMany_votes
        (handle_all [SubmitVote 5000 (vote_req ''p1'' (JNum (Fin 0)) (JStr ''x1'') None)] db_fresh)
        ''p1'')
   \<and> length (findMany_votes
        (handle_all [SubmitVote 5000 (vote_req ''p1'' (JNum (Fin 0)) (JStr ''x1'') None)] db_fresh)
        ''p1'') = 1"
proof -
  let ?rs = "[SubmitVote 5000 (vote_req ''p1'' (JNum (Fin 0)) (JStr ''x1'') None)]"
  note T = sum_counts_in_bounds [of db_mixed "''p1''" poll_AB db_fresh ?rs "''p1''" poll_AB]
  have h: "findUnique_poll db_mixed ''p1'' = Some poll_AB"
    by (simp add: findUnique_poll_def poll_AB_def a_vote_def db_fresh_def db_mixed_def vote_req_def)
  have run: "handle_all ?rs db_fresh
      = db_fresh\<lparr>votes := [a_vote 0 ''x1'' ''unknown'' 5000]\<rparr>"
    by (simp add: vote_route_defs poll_AB_def a_vote_def db_fresh_def db_mixed_def vote_req_def
        Let_def)
  have h2: "votes db_fresh = [] \<and> findUnique_poll (handle_all ?rs db_fresh) ''p1'' = Some poll_AB"
    unfolding run by (simp add: findUnique_poll_def poll_AB_def a_vote_def db_fresh_def
        db_mixed_def vote_req_def)
  have n: "length (findMany_votes (handle_all ?rs db_fresh) ''p1'') = 1"
    unfolding run by (simp add: findMany_votes_def poll_AB_def a_vote_def db_fresh_def
        db_mixed_def vote_req_def)
  show ?thesis
    using h T [THEN conjunct1, THEN mp, OF h] h2 T [THEN conjunct2, THEN mp, OF h2] n
    by (intro conjI) simp_all
qed

text \<open>
  Claim C3: a submission that succeeds appends exactly one vote to the ledger, the vote
  built from the request, and a submission that is rejected, for whatever cause, leaves
  the store as it was. Every answer of the route is one of the two.
\<close>

theorem one_append_or_none:
  "(\<exists>voteCounts totalVotes i.
       POST_vote now r d =
         (VoteJson voteCounts totalVotes,
          d\<lparr>votes := votes d @ [new_vote now r i (the_string (fingerprint_of r))]\<rparr>))
   \<or> (\<exists>e s. POST_vote now r d = (ErrorJson e s, d))"
proof (cases "readable r")
  case False
  then show ?thesis by (simp add: POST_vote_unreadable vote_failed_def)
next
  case True
  show ?thesis
    unfolding POST_vote_readable[OF True]
    by (auto simp: vote_failed_def vote_create_def split: option.splits)
qed

lemma uninterrupted_POST_vote:
  "uninterrupted now r d = (Answered (fst (POST_vote now r d)), snd (POST_vote now r d))"
proof (cases "readable r")
  case False
  then show ?thesis
    by (auto simp: uninterrupted_def POST_vote_unreadable readable_def split: option.splits)
next
  case True
  then obtain body where b: "req_body r = Some body" "destructurable body"
    by (auto simp: readable_def split: option.splits)
  have oi: "property body ''optionIndex'' = optionIndex_of r"
    and fp: "property body ''fingerprint'' = fingerprint_of r"
    by (simp_all add: optionIndex_of_def fingerprint_of_def b)
  show ?thesis
    unfolding POST_vote_readable[OF True] uninterrupted_def
    by (simp add: b oi fp recentVotesByIp_def new_vote_def Let_def split: option.splits)
qed

text \<open>
  Claim C2, as stated: at most one accepted vote exists for every pair of a poll and a
  fingerprint, and a submission for a poll on which a vote with the same fingerprint
  exists is rejected with the conflict answer 409. With two submissions of the
  fingerprint x1 in flight together, each takes its fingerprint check before the other
  takes its insert: both are answered with success and the ledger holds two votes of
  x1 on the poll. And a submission of a fingerprint that has voted, with an option
  index out of range, is answered \<^verbatim>\<open>Invalid option index\<close>, not 409.
\<close>

theorem same_fingerprint_counterexample:
  "run [(0, 5000), (1, 5000), (0, 5000), (1, 5000), (0, 5000), (1, 5000), (0, 5000), (1, 5000),
        (0, 5000), (1, 5000)]
     [Received vote_x1_a, Received vote_x1_b] db_fresh
   = ([Answered (VoteJson [1, 1] 2), Answered (VoteJson [1, 1] 2)],
      db_fresh\<lparr>votes := [a_vote 0 ''x1'' ''10.0.0.1'' 5000, a_vote 1 ''x1'' ''10.0.0.2'' 5000]\<rparr>)
   \<and> \<not> one_vote_per_identity
        (db_fresh\<lparr>votes := [a_vote 0 ''x1'' ''10.0.0.1'' 5000, a_vote 1 ''x1'' ''10.0.0.2'' 5000]\<rparr>)
   \<and> a_vote 0 ''x1'' ''10.0.0.1'' 1000 \<in> set (votes db_one)
   \<and> POST_vote 5000 (vote_req ''p1'' (JNum (Fin 5)) (JStr ''x1'') None) db_one
       = (InvalidOption, db_one)"
proof (intro conjI)
  show "run [(0, 5000), (1, 5000), (0, 5000), (1, 5000), (0, 5000), (1, 5000), (0, 5000),
          (1, 5000), (0, 5000), (1, 5000)]
       [Received vote_x1_a, Received vote_x1_b] db_fresh
     = ([Answered (VoteJson [1, 1] 2), Answered (VoteJson [1, 1] 2)],
        db_fresh\<lparr>votes := [a_vote 0 ''x1'' ''10.0.0.1'' 5000, a_vote 1 ''x1'' ''10.0.0.2'' 5000]\<rparr>)"
    by (simp add: vote_x1_a_def vote_x1_b_def vote_req_def db_fresh_def poll_AB_def a_vote_def
        destructurable_def fingerprint_missing_def get_ipAddress_def get_userAgent_def
        orElse_def findUnique_poll_def findMany_votes_def existingVoteByFingerprint_def
        fiveMinutesAgo_def vote_create_def count_votes_def trim_def is_space_def
        optionIndex_of_def fingerprint_of_def Let_def)
next
  show "\<not> one_vote_per_identity
      (db_fresh\<lparr>votes := [a_vote 0 ''x1'' ''10.0.0.1'' 5000, a_vote 1 ''x1'' ''10.0.0.2'' 5000]\<rparr>)"
  proof
    assume "one_vote_per_identity
      (db_fresh\<lparr>votes := [a_vote 0 ''x1'' ''10.0.0.1'' 5000, a_vote 1 ''x1'' ''10.0.0.2'' 5000]\<rparr>)"
    then have "length (filter (\<lambda>v. pollId v = Some ''p1'' \<and> fingerprint v = ''x1'')
        [a_vote 0 ''x1'' ''10.0.0.1'' 5000, a_vote 1 ''x1'' ''10.0.0.2'' 5000]) \<le> 1"
      unfolding one_vote_per_identity_def by (simp add: db_fresh_def)
    then show False
      by (simp add: a_vote_def)
  qed
next
  show "a_vote 0 ''x1'' ''10.0.0.1'' 1000 \<in> set (votes db_one)"
    by (simp add: db_one_def)
next
  show "POST_vote 5000 (vote_req ''p1'' (JNum (Fin 5)) (JStr ''x1'') None) db_one
       = (InvalidOption, db_one)"
    by (simp add: vote_route_defs poll_AB_def a_vote_def db_one_def vote_req_def)
qed

text \<open>
  Claim C2, amended: when the requests are handled one after the other, each taking
  all its steps before the next one starts, the ledger holds at most one vote for every
  pair of a poll and a fingerprint, and every sequence of requests keeps it so. A
  submission whose fingerprint has a vote on the poll in the ledger is rejected and
  appends nothing: with the conflict answer 409 when it reaches the duplicate check
  (its body is valid, the poll exists, the option index is below the number of
  options), by the earlier check otherwise. The route handled alone is the
  uninterrupted run of its five steps, and in any run the step of the fingerprint
  check that finds a vote answers 409 and leaves the store as it is.
\<close>

theorem one_vote_per_identity_kept:
  "(one_vote_per_identity d \<longrightarrow> one_vote_per_identity (handle_all rs d))
   \<and> (fingerprint_of r = JStr fp
        \<and> (\<exists>v\<in>set (votes d). pollId v = Some (req_pollId r) \<and> fingerprint v = fp) \<longrightarrow>
          snd (POST_vote now r d) = d
        \<and> (\<exists>e s. fst (POST_vote now r d) = ErrorJson e s)
        \<and> (reaches_duplicate_check d r \<longrightarrow> POST_vote now r d = (DuplicateIdentity, d)))
   \<and> uninterrupted now r d = (Answered (fst (POST_vote now r d)), snd (POST_vote now r d))
   \<and> (existingVoteByFingerprint d (req_pollId r) (the_string (fingerprint_of r)) \<noteq> None \<longrightarrow>
        vote_step now (PollFound r p) d = (Answered DuplicateIdentity, d))"
proof (intro conjI impI)
  assume "one_vote_per_identity d"
  then show "one_vote_per_identity (handle_all rs d)"
    by (rule handle_all_one_vote_per_identity)
next
  assume a: "fingerprint_of r = JStr fp
        \<and> (\<exists>v\<in>set (votes d). pollId v = Some (req_pollId r) \<and> fingerprint v = fp)"
  then show "snd (POST_vote now r d) = d"
    and "\<exists>e s. fst (POST_vote now r d) = ErrorJson e s"
    using duplicate_rejected(1,2)[of r fp d now] by simp_all
  show "POST_vote now r d = (DuplicateIdentity, d)" if "reaches_duplicate_check d r"
    using a that duplicate_rejected(3)[of r fp d now] by simp
next
  show "uninterrupted now r d = (Answered (fst (POST_vote now r d)), snd (POST_vote now r d))"
    by (rule uninterrupted_POST_vote)
next
  assume "existingVoteByFingerprint d (req_pollId r) (the_string (fingerprint_of r)) \<noteq> None"
  then show "vote_step now (PollFound r p) d = (Answered DuplicateIdentity, d)"
    by simp
qed

theorem one_vote_per_identity_kept_witness:
  "one_vote_per_identity db_one
   \<and> one_vote_per_identity
       (handle_all [SubmitVote 200000 (vote_req ''p1'' (JNum (Fin 1)) (JStr ''x1'') (Some ''10.0.0.9''))]
          db_one)
   \<and> fingerprint_of (vote_req ''p1'' (JNum (Fin 1)) (JStr ''x1'') (Some ''10.0.0.9'')) = JStr ''x1''
   \<and> (\<exists>v\<in>set (votes db_one). pollId v = Some ''p1'' \<and> fingerprint v = ''x1'')
   \<and> reaches_duplicate_check db_one (vote_req ''p1'' (JNum (Fin 1)) (JStr ''x1'') (Some ''10.0.0.9''))
   \<and> POST_vote 200000 (vote_req ''p1'' (JNum (Fin 1)) (JStr ''x1'') (Some ''10.0.0.9'')) db_one
       = (DuplicateIdentity, db_one)
   \<and> vote_step 200000
        (PollFound (vote_req ''p1'' (JNum (Fin 1)) (JStr ''x1'') (Some ''10.0.0.9'')) poll_AB) db_one
       = (Answered DuplicateIdentity, db_one)"
proof -
  let ?r = "vote_req ''p1'' (JNum (Fin 1)) (JStr ''x1'') (Some ''10.0.0.9'')"
  note T = one_vote_per_identity_kept [of db_one "[SubmitVote 200000 ?r]" ?r "''x1''" 200000 poll_AB]
  have h1: "one_vote_per_identity db_one"
    by (simp add: one_vote_per_identity_def poll_AB_def a_vote_def db_one_def)
  have p: "req_pollId ?r = ''p1''"
    by (simp add: vote_req_def)
  have h2: "fingerprint_of ?r = JStr ''x1''"
    by (simp add: fingerprint_of_def vote_req_def)
  have h3: "\<exists>v\<in>set (votes db_one). pollId v = Some ''p1'' \<and> fingerprint v = ''x1''"
    by (simp add: a_vote_def db_one_def)
  have h23: "fingerprint_of ?r = JStr ''x1''
      \<and> (\<exists>v\<in>set (votes db_one). pollId v = Some (req_pollId ?r) \<and> fingerprint v = ''x1'')"
    unfolding p using h2 h3 by (rule conjI)
  have h4: "reaches_duplicate_check db_one ?r"
    by (simp add: vote_route_defs poll_AB_def a_vote_def db_one_def vote_req_def)
  have h5: "existingVoteByFingerprint db_one (req_pollId ?r) (the_string (fingerprint_of ?r)) \<noteq> None"
    by (simp add: existingVoteByFingerprint_def fingerprint_of_def vote_req_def a_vote_def
        db_one_def)
  have c1: "one_vote_per_identity (handle_all [SubmitVote 200000 ?r] db_one)"
    by (rule T [THEN conjunct1, THEN mp, OF h1])
  have c2: "POST_vote 200000 ?r db_one = (DuplicateIdentity, db_one)"
    by (rule T [THEN conjunct2, THEN conjunct1, THEN mp, OF h23, THEN conjunct2, THEN conjunct2,
          THEN mp, OF h4])
  have c3: "vote_step 200000 (PollFound ?r poll_AB) db_one = (Answered DuplicateIdentity, db_one)"
    by (rule T [THEN conjunct2, THEN conjunct2, THEN conjunct2, THEN mp, OF h5])
  show ?thesis
    using h1 c1 h2 h3 h4 c2 c3 by (intro conjI)
qed

text \<open>
  Claim C9: in the answer of the fetch route, in the success answer of the vote route
  and in every update message, the list of counts is as long as the list of options of
  the poll, whatever votes the ledger holds; and every message that \<^verbatim>\<open>sendPollUpdate\<close>
  or \<^verbatim>\<open>broadcastPollUpdate\<close> adds to a stream is such an update message.
\<close>

theorem voteCounts_length_options:
  "(GET_poll d pid = PollJson i q os vc t c \<longrightarrow>
      (\<exists>p. findUnique_poll d pid = Some p \<and> os = options p \<and> length vc = length os))
   \<and> (POST_vote now request d = (VoteJson vc' t', d') \<longrightarrow>
      (\<exists>p. findUnique_poll d (req_pollId request) = Some p \<and> length vc' = length (options p)))
   \<and> (update_message d pid = Some m \<longrightarrow>
      (\<exists>p vc t. m = Update vc t \<and> findUnique_poll d pid = Some p
         \<and> length vc = length (options p)))
   \<and> (m' \<in> set (enqueued (sendPollUpdate d pid k st) k') \<longrightarrow>
        m' \<in> set (enqueued st k') \<or> update_message d pid = Some m')
   \<and> (m' \<in> set (enqueued (broadcastPollUpdate d pid st) k') \<longrightarrow>
        m' \<in> set (enqueued st k') \<or> update_message d pid = Some m')"
proof (intro conjI impI)
  assume "GET_poll d pid = PollJson i q os vc t c"
  then show "\<exists>p. findUnique_poll d pid = Some p \<and> os = options p \<and> length vc = length os"
    by (auto simp: GET_poll_def Let_def length_count_votes split: option.splits)
next
  assume a: "POST_vote now request d = (VoteJson vc' t', d')"
  show "\<exists>p. findUnique_poll d (req_pollId request) = Some p \<and> length vc' = length (options p)"
  proof (cases "readable request")
    case False
    then show ?thesis using a by (simp add: POST_vote_unreadable vote_failed_def)
  next
    case True
    show ?thesis
      using a unfolding POST_vote_readable[OF True]
      by (auto simp: length_count_votes vote_failed_def split: option.splits if_splits)
  qed
next
  assume "update_message d pid = Some m"
  then show "\<exists>p vc t. m = Update vc t \<and> findUnique_poll d pid = Some p
      \<and> length vc = length (options p)"
    by (rule length_count_votes_update)
next
  assume "m' \<in> set (enqueued (sendPollUpdate d pid k st) k')"
  then show "m' \<in> set (enqueued st k') \<or> update_message d pid = Some m'"
    by (rule sendPollUpdate_enqueued)
next
  assume "m' \<in> set (enqueued (broadcastPollUpdate d pid st) k')"
  then show "m' \<in> set (enqueued st k') \<or> update_message d pid = Some m'"
    by (rule broadcast_enqueued)
qed

theorem voteCounts_length_options_witness:
  "GET_poll db_mixed ''p1'' = PollJson ''p1'' ''Tea or coffee?'' [''A'', ''B''] [1, 0] 2 0
   \<and> (\<exists>p. findUnique_poll db_mixed ''p1'' = Some p \<and> [''A'', ''B''] = options p
         \<and> length [1 :: nat, 0] = length [''A'', ''B''])
   \<and> POST_vote 5000 (vote_req ''p1'' (JNum (Fin 0)) (JStr ''x3'') None) db_mixed
       = (VoteJson [2, 0] 3, db_mixed\<lparr>votes := votes db_mixed @ [a_vote 0 ''x3'' ''unknown'' 5000]\<rparr>)
   \<and> (\<exists>p. findUnique_poll db_mixed ''p1'' = Some p \<and> length [2 :: nat, 0] = length (options p))
   \<and> update_message db_mixed ''p1'' = Some (Update [1, 0] 2)
   \<and> (\<exists>p vc t. Update [1, 0] 2 = Update vc t \<and> findUnique_poll db_mixed ''p1'' = Some p
         \<and> length vc = length (options p))
   \<and> Update [1, 0] 2 \<in> set (enqueued (sendPollUpdate db_mixed ''p1'' 1 streams_one) 1)
   \<and> Update [1, 0] 2 \<in> set (enqueued (broadcastPollUpdate db_mixed ''p1'' streams_one) 1)
   \<and> Update [1, 0] 2 \<notin> set (enqueued streams_one 1)"
proof -
  let ?r = "vote_req ''p1'' (JNum (Fin 0)) (JStr ''x3'') None"
  let ?d' = "db_mixed\<lparr>votes := votes db_mixed @ [a_vote 0 ''x3'' ''unknown'' 5000]\<rparr>"
  have h1: "GET_poll db_mixed ''p1'' = PollJson ''p1'' ''Tea or coffee?'' [''A'', ''B''] [1, 0] 2 0"
    by (simp add: GET_poll_def vote_route_defs poll_AB_def a_vote_def db_mixed_def vote_req_def
        streams_one_def Let_def)
  have h2: "POST_vote 5000 ?r db_mixed = (VoteJson [2, 0] 3, ?d')"
    by (simp add: vote_route_defs poll_AB_def a_vote_def db_mixed_def vote_req_def streams_one_def
        Let_def)
  have h3: "update_message db_mixed ''p1'' = Some (Update [1, 0] 2)"
    by (simp add: update_message_def vote_route_defs poll_AB_def a_vote_def db_mixed_def
        vote_req_def streams_one_def Let_def)
  have h4: "Update [1, 0] 2 \<in> set (enqueued (sendPollUpdate db_mixed ''p1'' 1 streams_one) 1)"
    by (simp add: sendPollUpdate_def h3 enqueue_def streams_one_def)
  have h5: "Update [1, 0] 2 \<in> set (enqueued (broadcastPollUpdate db_mixed ''p1'' streams_one) 1)"
    by (simp add: broadcastPollUpdate_def h3 enqueue_def streams_one_def)
  have h6: "Update [1, 0] 2 \<notin> set (enqueued streams_one 1)"
    by (simp add: streams_one_def)
  have p: "req_pollId ?r = ''p1''"
    by (simp add: vote_req_def)
  note T = voteCounts_length_options
            [of db_mixed "''p1''" "''p1''" "''Tea or coffee?''" "[''A'', ''B'']" "[1, 0]" 2 0
                5000 ?r "[2, 0]" 3 ?d' "Update [1, 0] 2" "Update [1, 0] 2" 1 streams_one 1]
  have c1: "\<exists>p. findUnique_poll db_mixed ''p1'' = Some p \<and> [''A'', ''B''] = options p
         \<and> length [1 :: nat, 0] = length [''A'', ''B'']"
    by (rule T [THEN conjunct1, THEN mp, OF h1])
  have c2: "\<exists>p. findUnique_poll db_mixed ''p1'' = Some p \<and> length [2 :: nat, 0] = length (options p)"
    using T [THEN conjunct2, THEN conjunct1, THEN mp, OF h2] unfolding p .
  have c3: "\<exists>p vc t. Update [1, 0] 2 = Update vc t \<and> findUnique_poll db_mixed ''p1'' = Some p
         \<and> length vc = length (options p)"
    by (rule T [THEN conjunct2, THEN conjunct2, THEN conjunct1, THEN mp, OF h3])
  have c4: "Update [1, 0] 2 \<in> set (enqueued streams_one 1)
      \<or> update_message db_mixed ''p1'' = Some (Update [1, 0] 2)"
    by (rule T [THEN conjunct2, THEN conjunct2, THEN conjunct2, THEN conjunct1, THEN mp, OF h4])
  have c5: "Update [1, 0] 2 \<in> set (enqueued streams_one 1)
      \<or> update_message db_mixed ''p1'' = Some (Update [1, 0] 2)"
    by (rule T [THEN conjunct2, THEN conjunct2, THEN conjunct2, THEN conjunct2, THEN mp, OF h5])
  show ?thesis
    using h1 c1 h2 c2 h3 c3 h4 h5 h6 by (intro conjI)
qed

text \<open>
  Claim C4, as stated: the poll is resolved first, so a submission that names a poll
  that does not exist is answered \<^verbatim>\<open>Poll not found\<close> whatever else it carries, and a
  submission to an existing poll whose option index is not a whole number in range is
  answered \<^verbatim>\<open>Invalid option index\<close>. The route validates the body before it looks the
  poll up: a negative index for an unknown poll is answered \<^verbatim>\<open>Invalid option index\<close>,
  an index out of range without a fingerprint is answered \<^verbatim>\<open>Fingerprint is required\<close>,
  and the index 1/2 passes both tests of the index.
\<close>

theorem poll_not_found_first_counterexample:
  "findUnique_poll db_fresh ''nope'' = None
   \<and> POST_vote 5000 (vote_req ''nope'' (JNum (Fin (- 1))) (JStr ''x1'') None) db_fresh
       = (InvalidOption, db_fresh)
   \<and> InvalidOption \<noteq> PollNotFound
   \<and> findUnique_poll db_fresh ''p1'' = Some poll_AB
   \<and> POST_vote 5000 (vote_req ''p1'' (JNum (Fin 5)) JUndefined None) db_fresh
       = (MissingIdentity, db_fresh)
   \<and> MissingIdentity \<noteq> InvalidOption
   \<and> fst (POST_vote 5000 (vote_req ''p1'' (JNum (Fin (1 / 2))) (JStr ''x1'') None) db_fresh)
       \<noteq> InvalidOption"
  by (simp add: vote_route_defs poll_AB_def db_fresh_def vote_req_def Let_def as_integer_half del:
      as_integer.simps)

text \<open>
  Claim C4, amended: the route checks, in this order, that the option index is a number
  and not negative (else InvalidOption), that the fingerprint is a non-empty string
  other than \<^verbatim>\<open>server\<close> (else MissingIdentity), that the poll exists (else
  PollNotFound), that the option index is below the number of options (else
  InvalidOption), that the fingerprint has no vote on the poll (else
  DuplicateIdentity), and that the origin has no recent vote on the poll (else
  RateLimited). So a submission that passes the validation of its body and names a poll
  that does not exist is answered PollNotFound, and a submission with a valid
  fingerprint to an existing poll whose option index is a whole number out of range is
  answered InvalidOption. No rejection changes the store.
\<close>

theorem admission_order:
  "(readable r \<and> not_number_or_negative (optionIndex_of r) \<longrightarrow>
      POST_vote now r d = (InvalidOption, d))
   \<and> (readable r \<and> \<not> not_number_or_negative (optionIndex_of r)
        \<and> fingerprint_missing (fingerprint_of r) \<longrightarrow>
      POST_vote now r d = (MissingIdentity, d))
   \<and> (passes_validation r \<and> findUnique_poll d (req_pollId r) = None \<longrightarrow>
      POST_vote now r d = (PollNotFound, d))
   \<and> (passes_validation r \<and> findUnique_poll d (req_pollId r) = Some p
        \<and> index_ge (optionIndex_of r) (length (options p)) \<longrightarrow>
      POST_vote now r d = (InvalidOption, d))
   \<and> (readable r \<and> \<not> fingerprint_missing (fingerprint_of r)
        \<and> findUnique_poll d (req_pollId r) = Some p
        \<and> optionIndex_of r = JNum (Fin (rat_of_int k))
        \<and> \<not> (0 \<le> k \<and> k < int (length (options p))) \<longrightarrow>
      POST_vote now r d = (InvalidOption, d))
   \<and> (reaches_duplicate_check d r
        \<and> existingVoteByFingerprint d (req_pollId r) (the_string (fingerprint_of r)) \<noteq> None \<longrightarrow>
      POST_vote now r d = (DuplicateIdentity, d))
   \<and> (reaches_rate_limit d r
        \<and> recentVotesByIp d (req_pollId r) (get_ipAddress r) now \<noteq> None \<longrightarrow>
      POST_vote now r d = (RateLimited, d))"
proof (intro conjI impI)
  assume "readable r \<and> not_number_or_negative (optionIndex_of r)"
  then show "POST_vote now r d = (InvalidOption, d)"
    by (simp add: POST_vote_readable)
next
  assume "readable r \<and> \<not> not_number_or_negative (optionIndex_of r)
        \<and> fingerprint_missing (fingerprint_of r)"
  then show "POST_vote now r d = (MissingIdentity, d)"
    by (simp add: POST_vote_readable)
next
  assume "passes_validation r \<and> findUnique_poll d (req_pollId r) = None"
  then show "POST_vote now r d = (PollNotFound, d)"
    by (simp add: POST_vote_readable passes_validation_def)
next
  assume "passes_validation r \<and> findUnique_poll d (req_pollId r) = Some p
        \<and> index_ge (optionIndex_of r) (length (options p))"
  then show "POST_vote now r d = (InvalidOption, d)"
    by (simp add: POST_vote_readable passes_validation_def)
next
  assume a: "readable r \<and> \<not> fingerprint_missing (fingerprint_of r)
        \<and> findUnique_poll d (req_pollId r) = Some p
        \<and> optionIndex_of r = JNum (Fin (rat_of_int k))
        \<and> \<not> (0 \<le> k \<and> k < int (length (options p)))"
  then have out: "k < 0 \<or> int (length (options p)) \<le> k" by linarith
  from a have oi: "optionIndex_of r = JNum (Fin (rat_of_int k))" by simp
  have "not_number_or_negative (optionIndex_of r)
      \<or> index_ge (optionIndex_of r) (length (options p))"
    unfolding oi integer_index_tests by (rule out)
  then show "POST_vote now r d = (InvalidOption, d)"
    using a by (auto simp: POST_vote_readable)
next
  assume a: "reaches_duplicate_check d r
        \<and> existingVoteByFingerprint d (req_pollId r) (the_string (fingerprint_of r)) \<noteq> None"
  then have rd: "readable r"
    by (simp add: reaches_duplicate_check_def passes_validation_def)
  show "POST_vote now r d = (DuplicateIdentity, d)"
    unfolding POST_vote_readable[OF rd] using a
    by (auto simp: reaches_duplicate_check_def passes_validation_def split: option.splits)
next
  assume "reaches_rate_limit d r
        \<and> recentVotesByIp d (req_pollId r) (get_ipAddress r) now \<noteq> None"
  then show "POST_vote now r d = (RateLimited, d)"
    by (simp add: POST_vote_reaches_rate_limit)
qed

theorem admission_order_witness:
  "POST_vote 5000 (vote_req ''nope'' (JNum (Fin (- 1))) (JStr ''x1'') None) db_fresh
     = (InvalidOption, db_fresh)
   \<and> POST_vote 5000 (vote_req ''p1'' (JNum (Fin 5)) JUndefined None) db_fresh
     = (MissingIdentity, db_fresh)
   \<and> POST_vote 5000 (vote_req ''nope'' (JNum (Fin 0)) (JStr ''x1'') None) db_fresh
     = (PollNotFound, db_fresh)
   \<and> POST_vote 5000 (vote_req ''p1'' (JNum (Fin 5)) (JStr ''x1'') None) db_fresh
     = (InvalidOption, db_fresh)
   \<and> POST_vote 5000 (vote_req ''p1'' (JNum (Fin 1)) (JStr ''x1'') (Some ''10.0.0.1'')) db_one
     = (DuplicateIdentity, db_one)
   \<and> POST_vote 5000 (vote_req ''p1'' (JNum (Fin 1)) (JStr ''x2'') (Some ''10.0.0.1'')) db_one
     = (RateLimited, db_one)"
proof -
  let ?neg = "vote_req ''nope'' (JNum (Fin (- 1))) (JStr ''x1'') None"
  let ?nofp = "vote_req ''p1'' (JNum (Fin 5)) JUndefined None"
  let ?nopoll = "vote_req ''nope'' (JNum (Fin 0)) (JStr ''x1'') None"
  let ?high = "vote_req ''p1'' (JNum (Fin 5)) (JStr ''x1'') None"
  let ?dup = "vote_req ''p1'' (JNum (Fin 1)) (JStr ''x1'') (Some ''10.0.0.1'')"
  let ?fast = "vote_req ''p1'' (JNum (Fin 1)) (JStr ''x2'') (Some ''10.0.0.1'')"
  have h1: "readable ?neg \<and> not_number_or_negative (optionIndex_of ?neg)"
    by (simp add: vote_route_defs poll_AB_def a_vote_def db_fresh_def db_one_def vote_req_def)
  have h2: "readable ?nofp \<and> \<not> not_number_or_negative (optionIndex_of ?nofp)
      \<and> fingerprint_missing (fingerprint_of ?nofp)"
    by (simp add: vote_route_defs poll_AB_def a_vote_def db_fresh_def db_one_def vote_req_def)
  have h3: "passes_validation ?nopoll \<and> findUnique_poll db_fresh (req_pollId ?nopoll) = None"
    by (simp add: vote_route_defs poll_AB_def a_vote_def db_fresh_def db_one_def vote_req_def)
  have h4: "passes_validation ?high \<and> findUnique_poll db_fresh (req_pollId ?high) = Some poll_AB
      \<and> index_ge (optionIndex_of ?high) (length (options poll_AB))"
    by (simp add: vote_route_defs poll_AB_def a_vote_def db_fresh_def db_one_def vote_req_def)
  have h5: "readable ?high \<and> \<not> fingerprint_missing (fingerprint_of ?high)
      \<and> findUnique_poll db_fresh (req_pollId ?high) = Some poll_AB
      \<and> optionIndex_of ?high = JNum (Fin (rat_of_int 5))
      \<and> \<not> (0 \<le> (5 :: int) \<and> 5 < int (length (options poll_AB)))"
    by (simp add: vote_route_defs poll_AB_def a_vote_def db_fresh_def db_one_def vote_req_def)
  have h6: "reaches_duplicate_check db_one ?dup
      \<and> existingVoteByFingerprint db_one (req_pollId ?dup) (the_string (fingerprint_of ?dup)) \<noteq> None"
    by (simp add: vote_route_defs poll_AB_def a_vote_def db_fresh_def db_one_def vote_req_def)
  have h7: "reaches_rate_limit db_one ?fast
      \<and> recentVotesByIp db_one (req_pollId ?fast) (get_ipAddress ?fast) 5000 \<noteq> None"
    by (simp add: vote_route_defs poll_AB_def a_vote_def db_fresh_def db_one_def vote_req_def)
  have c1: "POST_vote 5000 ?neg db_fresh = (InvalidOption, db_fresh)"
    by (rule admission_order [of ?neg 5000 db_fresh poll_AB 5, THEN conjunct1, THEN mp, OF h1])
  have c2: "POST_vote 5000 ?nofp db_fresh = (MissingIdentity, db_fresh)"
    by (rule admission_order [of ?nofp 5000 db_fresh poll_AB 5,
          THEN conjunct2, THEN conjunct1, THEN mp, OF h2])
  have c3: "POST_vote 5000 ?nopoll db_fresh = (PollNotFound, db_fresh)"
    by (rule admission_order [of ?nopoll 5000 db_fresh poll_AB 5,
          THEN conjunct2, THEN conjunct2, THEN conjunct1, THEN mp, OF h3])
  have c4: "POST_vote 5000 ?high db_fresh = (InvalidOption, db_fresh)"
    by (rule admission_order [of ?high 5000 db_fresh poll_AB 5,
          THEN conjunct2, THEN conjunct2, THEN conjunct2, THEN conjunct1, THEN mp, OF h4])
  have c5: "POST_vote 5000 ?high db_fresh = (InvalidOption, db_fresh)"
    by (rule admission_order [of ?high 5000 db_fresh poll_AB 5,
          THEN conjunct2, THEN conjunct2, THEN conjunct2, THEN conjunct2, THEN conjunct1,
          THEN mp, OF h5])
  have c6: "POST_vote 5000 ?dup db_one = (DuplicateIdentity, db_one)"
    by (rule admission_order [of ?dup 5000 db_one poll_AB 5,
          THEN conjunct2, THEN conjunct2, THEN conjunct2, THEN conjunct2, THEN conjunct2,
          THEN conjunct1, THEN mp, OF h6])
  have c7: "POST_vote 5000 ?fast db_one = (RateLimited, db_one)"
    by (rule admission_order [of ?fast 5000 db_one poll_AB 5,
          THEN conjunct2, THEN conjunct2, THEN conjunct2, THEN conjunct2, THEN conjunct2,
          THEN conjunct2, THEN mp, OF h7])
  show ?thesis
    using c1 c2 c3 c4 c5 c6 c7 by (intro conjI)
qed

text \<open>
  Claim C5: a submission that reaches the rate-limit check (valid body, existing poll,
  index in range, fingerprint not used on the poll) is answered with the throttling
  status 429 exactly when the ledger holds a vote on the same poll from the same origin
  address created at or after 60 seconds before now; the route gives that answer in no
  other case; and when there is no such vote the check passes and the vote is appended.
\<close>

theorem rate_limited_iff:
  "(fst (POST_vote now r d) = RateLimited \<longleftrightarrow>
      reaches_rate_limit d r
      \<and> (\<exists>v\<in>set (votes d). pollId v = Some (req_pollId r)
            \<and> ipAddress v = Some (get_ipAddress r) \<and> now - 60000 \<le> createdAt v))
   \<and> (reaches_rate_limit d r
        \<and> \<not> (\<exists>v\<in>set (votes d). pollId v = Some (req_pollId r)
                \<and> ipAddress v = Some (get_ipAddress r) \<and> now - 60000 \<le> createdAt v)
        \<and> as_integer (optionIndex_of r) = Some i \<longrightarrow>
          (\<exists>voteCounts totalVotes.
             POST_vote now r d =
               (VoteJson voteCounts totalVotes,
                d\<lparr>votes := votes d @ [new_vote now r i (the_string (fingerprint_of r))]\<rparr>)))"
proof (intro conjI impI iffI)
  assume a: "fst (POST_vote now r d) = RateLimited"
  have rr: "reaches_rate_limit d r" by (rule RateLimited_reaches[OF a])
  show "reaches_rate_limit d r" by (rule rr)
  show "\<exists>v\<in>set (votes d). pollId v = Some (req_pollId r)
            \<and> ipAddress v = Some (get_ipAddress r) \<and> now - 60000 \<le> createdAt v"
    using a unfolding POST_vote_reaches_rate_limit[OF rr] recent_None_iff
    by (auto simp: vote_failed_def split: option.splits if_splits)
next
  assume "reaches_rate_limit d r
      \<and> (\<exists>v\<in>set (votes d). pollId v = Some (req_pollId r)
            \<and> ipAddress v = Some (get_ipAddress r) \<and> now - 60000 \<le> createdAt v)"
  then show "fst (POST_vote now r d) = RateLimited"
    using POST_vote_reaches_rate_limit[of d r now] recent_None_iff[of d "req_pollId r"
        "get_ipAddress r" now]
    by auto
next
  assume a: "reaches_rate_limit d r
        \<and> \<not> (\<exists>v\<in>set (votes d). pollId v = Some (req_pollId r)
                \<and> ipAddress v = Some (get_ipAddress r) \<and> now - 60000 \<le> createdAt v)
        \<and> as_integer (optionIndex_of r) = Some i"
  then have rr: "reaches_rate_limit d r" by simp
  show "\<exists>voteCounts totalVotes.
             POST_vote now r d =
               (VoteJson voteCounts totalVotes,
                d\<lparr>votes := votes d @ [new_vote now r i (the_string (fingerprint_of r))]\<rparr>)"
    using a unfolding POST_vote_reaches_rate_limit[OF rr] recent_None_iff
    by (auto simp: vote_create_def)
qed

theorem rate_limited_iff_witness:
  "reaches_rate_limit db_one (vote_req ''p1'' (JNum (Fin 1)) (JStr ''x2'') (Some ''10.0.0.1''))
   \<and> (\<exists>v\<in>set (votes db_one). pollId v = Some ''p1'' \<and> ipAddress v = Some ''10.0.0.1''
         \<and> 61000 - 60000 \<le> createdAt v)
   \<and> fst (POST_vote 61000 (vote_req ''p1'' (JNum (Fin 1)) (JStr ''x2'') (Some ''10.0.0.1'')) db_one)
       = RateLimited
   \<and> \<not> (\<exists>v\<in>set (votes db_one). pollId v = Some ''p1'' \<and> ipAddress v = Some ''10.0.0.1''
         \<and> 61001 - 60000 \<le> createdAt v)
   \<and> as_integer (JNum (Fin 1)) = Some 1
   \<and> (\<exists>voteCounts totalVotes.
        POST_vote 61001 (vote_req ''p1'' (JNum (Fin 1)) (JStr ''x2'') (Some ''10.0.0.1'')) db_one
          = (VoteJson voteCounts totalVotes,
             db_one\<lparr>votes := votes db_one @ [a_vote 1 ''x2'' ''10.0.0.1'' 61001]\<rparr>))"
proof -
  let ?r = "vote_req ''p1'' (JNum (Fin 1)) (JStr ''x2'') (Some ''10.0.0.1'')"
  have h1: "reaches_rate_limit db_one ?r"
    by (simp add: vote_route_defs poll_AB_def a_vote_def db_one_def vote_req_def)
  have p: "req_pollId ?r = ''p1''" and ip: "get_ipAddress ?r = ''10.0.0.1''"
    and oi: "optionIndex_of ?r = JNum (Fin 1)" and fp: "the_string (fingerprint_of ?r) = ''x2''"
    by (simp_all add: vote_route_defs poll_AB_def a_vote_def db_one_def vote_req_def)
  have h2: "\<exists>v\<in>set (votes db_one). pollId v = Some ''p1'' \<and> ipAddress v = Some ''10.0.0.1''
         \<and> 61000 - 60000 \<le> createdAt v"
    by (simp add: poll_AB_def a_vote_def db_one_def vote_req_def)
  have h3: "\<not> (\<exists>v\<in>set (votes db_one). pollId v = Some ''p1'' \<and> ipAddress v = Some ''10.0.0.1''
         \<and> 61001 - 60000 \<le> createdAt v)"
    by (simp add: poll_AB_def a_vote_def db_one_def vote_req_def)
  have h4: "as_integer (JNum (Fin 1)) = Some 1"
    by simp
  have nv: "new_vote 61001 ?r 1 ''x2'' = a_vote 1 ''x2'' ''10.0.0.1'' 61001"
    by (simp add: vote_route_defs poll_AB_def a_vote_def db_one_def vote_req_def)
  show ?thesis
    using rate_limited_iff [of 61000 ?r db_one 1] rate_limited_iff [of 61001 ?r db_one 1]
      h1 h2 h3 h4
    unfolding p ip oi fp nv by blast
qed

text \<open>
  Claim C10: a submission without the headers \<^verbatim>\<open>x-forwarded-for\<close> and \<^verbatim>\<open>x-real-ip\<close>
  that is accepted is recorded with the origin \<^verbatim>\<open>unknown\<close>. As long as that vote is in
  the ledger, any other submission to the same poll without the two headers, at most
  60 seconds later, is not accepted and changes nothing; it is answered with the
  throttling status 429 as soon as it reaches the rate-limit check, whoever sends it.
\<close>

theorem unknown_origin_shared:
  assumes "x_forwarded_for r1 = None" and "x_real_ip r1 = None"
    and "POST_vote t1 r1 d = (VoteJson vc t, d1)"
    and "set (votes d1) \<subseteq> set (votes d2)"
    and "x_forwarded_for r2 = None" and "x_real_ip r2 = None"
    and "req_pollId r2 = req_pollId r1"
    and "t2 - 60000 \<le> t1"
  shows "(\<exists>v. votes d1 = votes d @ [v] \<and> pollId v = Some (req_pollId r1)
            \<and> ipAddress v = Some ''unknown'' \<and> createdAt v = t1)
    \<and> snd (POST_vote t2 r2 d2) = d2
    \<and> (\<exists>e s. fst (POST_vote t2 r2 d2) = ErrorJson e s)
    \<and> (reaches_rate_limit d2 r2 \<longrightarrow> POST_vote t2 r2 d2 = (RateLimited, d2))"
proof -
  from POST_vote_VoteJson[OF assms(3)] obtain i where
    d1: "d1 = vote_create d (new_vote t1 r1 i (the_string (fingerprint_of r1)))"
    by blast
  let ?v = "new_vote t1 r1 i (the_string (fingerprint_of r1))"
  have ip1: "get_ipAddress r1 = ''unknown''"
    using assms(1,2) by (rule headerless_unknown)
  have ip2: "get_ipAddress r2 = ''unknown''"
    using assms(5,6) by (rule headerless_unknown)
  have v: "votes d1 = votes d @ [?v] \<and> pollId ?v = Some (req_pollId r1)
      \<and> ipAddress ?v = Some ''unknown'' \<and> createdAt ?v = t1"
    by (simp add: d1 vote_create_def new_vote_def ip1)
  then have "?v \<in> set (votes d2)"
    using assms(4) by auto
  then have recent: "recentVotesByIp d2 (req_pollId r2) (get_ipAddress r2) t2 \<noteq> None"
    unfolding recent_None_iff using v assms(7,8) ip2 by auto
  have unchanged: "snd (POST_vote t2 r2 d2) = d2"
    using POST_vote_state[of t2 r2 d2] recent by auto
  have rejected: "\<exists>e s. fst (POST_vote t2 r2 d2) = ErrorJson e s"
  proof -
    from POST_vote_answers[of t2 r2 d2] show ?thesis
    proof
      assume "\<exists>vc t. fst (POST_vote t2 r2 d2) = VoteJson vc t"
      then obtain vc' t' where "POST_vote t2 r2 d2 = (VoteJson vc' t', snd (POST_vote t2 r2 d2))"
        by (metis prod.collapse)
      from POST_vote_VoteJson[OF this] recent show ?thesis by blast
    qed
  qed
  have limited: "POST_vote t2 r2 d2 = (RateLimited, d2)" if "reaches_rate_limit d2 r2"
    using that recent by (simp add: POST_vote_reaches_rate_limit)
  show ?thesis
    using v unchanged rejected limited by blast
qed

theorem unknown_origin_shared_witness:
  "x_forwarded_for (vote_req ''p1'' (JNum (Fin 0)) (JStr ''x1'') None) = None
   \<and> x_real_ip (vote_req ''p1'' (JNum (Fin 0)) (JStr ''x1'') None) = None
   \<and> POST_vote 5000 (vote_req ''p1'' (JNum (Fin 0)) (JStr ''x1'') None) db_fresh
       = (VoteJson [1, 0] 1, db_fresh\<lparr>votes := [a_vote 0 ''x1'' ''unknown'' 5000]\<rparr>)
   \<and> (65000 :: int) - 60000 \<le> 5000
   \<and> reaches_rate_limit (db_fresh\<lparr>votes := [a_vote 0 ''x1'' ''unknown'' 5000]\<rparr>)
       (vote_req ''p1'' (JNum (Fin 1)) (JStr ''x2'') None)
   \<and> POST_vote 65000 (vote_req ''p1'' (JNum (Fin 1)) (JStr ''x2'') None)
       (db_fresh\<lparr>votes := [a_vote 0 ''x1'' ''unknown'' 5000]\<rparr>)
       = (RateLimited, db_fresh\<lparr>votes := [a_vote 0 ''x1'' ''unknown'' 5000]\<rparr>)"
proof -
  let ?r1 = "vote_req ''p1'' (JNum (Fin 0)) (JStr ''x1'') None"
  let ?r2 = "vote_req ''p1'' (JNum (Fin 1)) (JStr ''x2'') None"
  let ?d1 = "db_fresh\<lparr>votes := [a_vote 0 ''x1'' ''unknown'' 5000]\<rparr>"
  have h1: "x_forwarded_for ?r1 = None" and h2: "x_real_ip ?r1 = None"
    and h5: "x_forwarded_for ?r2 = None" and h6: "x_real_ip ?r2 = None"
    and h7: "req_pollId ?r2 = req_pollId ?r1"
    by (simp_all add: vote_req_def)
  have h3: "POST_vote 5000 ?r1 db_fresh = (VoteJson [1, 0] 1, ?d1)"
    by (simp add: vote_route_defs poll_AB_def a_vote_def db_fresh_def vote_req_def Let_def)
  have h4: "set (votes ?d1) \<subseteq> set (votes ?d1)"
    by simp
  have h8: "(65000 :: int) - 60000 \<le> 5000"
    by simp
  have h9: "reaches_rate_limit ?d1 ?r2"
    by (simp add: vote_route_defs poll_AB_def a_vote_def db_fresh_def vote_req_def)
  show ?thesis
    using unknown_origin_shared [OF h1 h2 h3 h4 h5 h6 h7 h8] h1 h2 h3 h8 h9 by blast
qed

section \<open>Properties of poll creation\<close>

lemma trim_Nil: "trim [] = []"
  by (simp add: trim_def)

lemma question_missing_iff: "\<not> question_missing j \<longleftrightarrow> (\<exists>q. j = JStr q \<and> trim q \<noteq> [])"
  by (cases j) (auto simp: question_missing_def trim_Nil)

lemma valid_option_iff: "valid_option j \<longleftrightarrow> (\<exists>s. j = JStr s \<and> trim s \<noteq> [])"
  by (cases j) (auto simp: valid_option_def)

lemma POST_polls_creatable:
  assumes "create_body r = Some body" and "destructurable body"
    and "property body ''question'' = JStr q" and "trim q \<noteq> []"
    and "property body ''options'' = JArr opts"
    and "2 \<le> length (filter valid_option opts)" and "length (filter valid_option opts) \<le> 10"
  shows "POST_polls app_url new_id now r d =
     (if findUnique_poll d new_id \<noteq> None then (create_failed, d)
      else (CreatedJson new_id (trim q) (map (\<lambda>opt. trim (the_string opt)) (filter valid_option opts))
              (shareUrl app_url new_id),
            d\<lparr>polls := polls d @
               [\<lparr>poll_id = new_id, question = trim q,
                 options = map (\<lambda>opt. trim (the_string opt)) (filter valid_option opts),
                 poll_createdAt = now\<rparr>]\<rparr>))"
proof -
  have "2 \<le> length opts"
    using assms(6) length_filter_le[of valid_option opts] by linarith
  moreover have "\<not> question_missing (JStr q)"
    using assms(4) by (simp add: question_missing_iff)
  ultimately show ?thesis
    using assms by (simp add: POST_polls_def Let_def)
qed

lemma POST_polls_not_creatable:
  assumes "create_body r = Some body" and "destructurable body" and "\<not> creatable body"
  shows "\<exists>e. POST_polls app_url new_id now r d = (ErrorJson e 400, d)"
proof (cases "question_missing (property body ''question'')")
  case True
  then show ?thesis using assms(1,2) by (simp add: POST_polls_def Let_def)
next
  case False
  then obtain q where q: "property body ''question'' = JStr q" "trim q \<noteq> []"
    by (auto simp: question_missing_iff)
  show ?thesis
  proof (cases "property body ''options''")
    case (JArr opts)
    then have "\<not> (2 \<le> length (filter valid_option opts) \<and> length (filter valid_option opts) \<le> 10)"
      using assms(3) q by (auto simp: creatable_def)
    then show ?thesis
      using assms(1,2) False JArr by (auto simp: POST_polls_def Let_def)
  qed (use assms(1,2) False in \<open>simp_all add: POST_polls_def Let_def\<close>)
qed

lemma POST_polls_unreadable:
  assumes "\<not> (\<exists>body. create_body r = Some body \<and> destructurable body)"
  shows "POST_polls app_url new_id now r d = (create_failed, d)"
  using assms by (auto simp: POST_polls_def split: option.splits)

lemma POST_polls_CreatedJson:
  assumes "POST_polls app_url new_id now r d = (CreatedJson i q' os u, d')"
  shows "(\<exists>body. create_body r = Some body \<and> destructurable body \<and> creatable body)
     \<and> findUnique_poll d new_id = None"
proof (cases "\<exists>body. create_body r = Some body \<and> destructurable body")
  case False
  then show ?thesis
    using assms POST_polls_unreadable[of r app_url new_id now d] by (simp add: create_failed_def)
next
  case True
  then obtain body where b: "create_body r = Some body" "destructurable body"
    by blast
  have c: "creatable body"
  proof (rule ccontr)
    assume "\<not> creatable body"
    from POST_polls_not_creatable[OF b this, of app_url new_id now d] show False
      using assms by auto
  qed
  then obtain q opts where
    q: "property body ''question'' = JStr q" "trim q \<noteq> []"
       "property body ''options'' = JArr opts"
       "2 \<le> length (filter valid_option opts)" "length (filter valid_option opts) \<le> 10"
    by (auto simp: creatable_def)
  have "findUnique_poll d new_id = None"
    using assms unfolding POST_polls_creatable[OF b q]
    by (auto simp: create_failed_def split: if_splits)
  then show ?thesis using b c by blast
qed

lemma valid_option_JStr: "valid_option (JStr s) \<longleftrightarrow> trim s \<noteq> []"
  by (simp add: valid_option_def)

text \<open>
  Claim C6, as stated: a creation request is accepted exactly when the question is a
  non-empty trimmed string and the options are 2 to 10 strings, each non-empty after
  trimming; a request with a blank or non-string option is rejected. The route filters
  the options instead: a request with the options A, a blank string, the number 3 and
  B is accepted, and the poll is created with the options A and B.
\<close>

theorem blank_option_counterexample:
  "POST_polls None ''abc'' 7 (create_req (JStr ''Q?'') (JArr [JStr ''A'', JStr ''  '', JNum (Fin 3), JStr '' B ''])) db_none
   = (CreatedJson ''abc'' ''Q?'' [''A'', ''B''] ''http://localhost:3000/poll/abc'',
      \<lparr>polls = [\<lparr>poll_id = ''abc'', question = ''Q?'', options = [''A'', ''B''], poll_createdAt = 7\<rparr>],
        votes = []\<rparr>)"
  by (simp add: POST_polls_def create_req_def destructurable_def question_missing_def
      valid_option_def trim_def is_space_def findUnique_poll_def shareUrl_def orElse_def Let_def
      db_none_def)

text \<open>
  Claim C6, amended: a creation request is accepted exactly when its body can be read,
  its question is a string that is not empty after trimming, its options are an array
  of which at least 2 and at most 10 entries are strings that are not empty after
  trimming, and the store takes the new identifier. Blank and non-string entries are
  dropped; the poll is stored with the trimmed question and the remaining options,
  trimmed, in their order, duplicates included. The answer carries the identifier and
  the share URL, which ends in \<^verbatim>\<open>/poll/\<close> and the identifier. A readable request that
  does not satisfy the conditions is answered with the status 400 and changes nothing.
\<close>

theorem create_poll_accepts:
  "(create_body r = Some body \<and> destructurable body
      \<and> property body ''question'' = JStr q \<and> trim q \<noteq> []
      \<and> property body ''options'' = JArr opts
      \<and> 2 \<le> length (filter valid_option opts) \<and> length (filter valid_option opts) \<le> 10
      \<and> findUnique_poll d new_id = None \<longrightarrow>
    POST_polls app_url new_id now r d =
      (CreatedJson new_id (trim q) (map (\<lambda>opt. trim (the_string opt)) (filter valid_option opts))
         (shareUrl app_url new_id),
       d\<lparr>polls := polls d @
          [\<lparr>poll_id = new_id, question = trim q,
            options = map (\<lambda>opt. trim (the_string opt)) (filter valid_option opts),
            poll_createdAt = now\<rparr>]\<rparr>))
   \<and> (create_body r = Some body \<and> destructurable body \<and> \<not> creatable body \<longrightarrow>
        (\<exists>e. POST_polls app_url new_id now r d = (ErrorJson e 400, d)))
   \<and> ((\<exists>i q' os u d'. POST_polls app_url new_id now r d = (CreatedJson i q' os u, d')) \<longleftrightarrow>
        (\<exists>b. create_body r = Some b \<and> destructurable b \<and> creatable b)
        \<and> findUnique_poll d new_id = None)
   \<and> (valid_option j \<longleftrightarrow> (\<exists>s. j = JStr s \<and> trim s \<noteq> []))"
proof (intro conjI impI)
  assume a: "create_body r = Some body \<and> destructurable body
      \<and> property body ''question'' = JStr q \<and> trim q \<noteq> []
      \<and> property body ''options'' = JArr opts
      \<and> 2 \<le> length (filter valid_option opts) \<and> length (filter valid_option opts) \<le> 10
      \<and> findUnique_poll d new_id = None"
  then show "POST_polls app_url new_id now r d =
      (CreatedJson new_id (trim q) (map (\<lambda>opt. trim (the_string opt)) (filter valid_option opts))
         (shareUrl app_url new_id),
       d\<lparr>polls := polls d @
          [\<lparr>poll_id = new_id, question = trim q,
            options = map (\<lambda>opt. trim (the_string opt)) (filter valid_option opts),
            poll_createdAt = now\<rparr>]\<rparr>)"
    using POST_polls_creatable[of r body q opts app_url new_id now d] by simp
next
  assume "create_body r = Some body \<and> destructurable body \<and> \<not> creatable body"
  then show "\<exists>e. POST_polls app_url new_id now r d = (ErrorJson e 400, d)"
    using POST_polls_not_creatable[of r body app_url new_id now d] by simp
next
  show "(\<exists>i q' os u d'. POST_polls app_url new_id now r d = (CreatedJson i q' os u, d')) \<longleftrightarrow>
        (\<exists>b. create_body r = Some b \<and> destructurable b \<and> creatable b)
        \<and> findUnique_poll d new_id = None"
  proof
    assume "\<exists>i q' os u d'. POST_polls app_url new_id now r d = (CreatedJson i q' os u, d')"
    then show "(\<exists>b. create_body r = Some b \<and> destructurable b \<and> creatable b)
        \<and> findUnique_poll d new_id = None"
      using POST_polls_CreatedJson by blast
  next
    assume a: "(\<exists>b. create_body r = Some b \<and> destructurable b \<and> creatable b)
        \<and> findUnique_poll d new_id = None"
    then obtain b q opts where
      b: "create_body r = Some b" "destructurable b"
      and q: "property b ''question'' = JStr q" "trim q \<noteq> []"
        "property b ''options'' = JArr opts"
        "2 \<le> length (filter valid_option opts)" "length (filter valid_option opts) \<le> 10"
      by (auto simp: creatable_def)
    show "\<exists>i q' os u d'. POST_polls app_url new_id now r d = (CreatedJson i q' os u, d')"
      unfolding POST_polls_creatable[OF b q] using a by simp
  qed
next
  show "valid_option j \<longleftrightarrow> (\<exists>s. j = JStr s \<and> trim s \<noteq> [])"
    by (rule valid_option_iff)
qed

theorem create_poll_accepts_witness:
  "POST_polls None ''abc'' 7 (create_req (JStr '' Q? '') (JArr [JStr ''A'', JStr '' B ''])) db_none
     = (CreatedJson ''abc'' ''Q?'' [''A'', ''B''] ''http://localhost:3000/poll/abc'',
        db_none\<lparr>polls := [\<lparr>poll_id = ''abc'', question = ''Q?'', options = [''A'', ''B''],
                             poll_createdAt = 7\<rparr>]\<rparr>)
   \<and> \<not> creatable (JObj [(''question'', JStr ''Q?''), (''options'', JArr [JStr ''A'', JStr '' ''])])
   \<and> (\<exists>e. POST_polls None ''abc'' 7 (create_req (JStr ''Q?'') (JArr [JStr ''A'', JStr '' ''])) db_none
          = (ErrorJson e 400, db_none))
   \<and> creatable (JObj [(''question'', JStr '' Q? ''), (''options'', JArr [JStr ''A'', JStr '' B ''])])"
proof -
  let ?good = "JObj [(''question'', JStr '' Q? ''), (''options'', JArr [JStr ''A'', JStr '' B ''])]"
  let ?bad = "JObj [(''question'', JStr ''Q?''), (''options'', JArr [JStr ''A'', JStr '' ''])]"
  have tq: "trim '' Q? '' = ''Q?''" and tb: "trim '' B '' = ''B''" and ta: "trim ''A'' = ''A''"
    and ts: "trim '' '' = []"
    by (simp_all add: trim_def is_space_def)
  have vo: "filter valid_option [JStr ''A'', JStr '' B ''] = [JStr ''A'', JStr '' B '']"
    and vb: "filter valid_option [JStr ''A'', JStr '' ''] = [JStr ''A'']"
    by (simp_all add: valid_option_JStr ta tb ts)
  have g: "create_body (create_req (JStr '' Q? '') (JArr [JStr ''A'', JStr '' B ''])) = Some ?good
      \<and> destructurable ?good
      \<and> property ?good ''question'' = JStr '' Q? '' \<and> trim '' Q? '' \<noteq> []
      \<and> property ?good ''options'' = JArr [JStr ''A'', JStr '' B '']
      \<and> 2 \<le> length (filter valid_option [JStr ''A'', JStr '' B ''])
      \<and> length (filter valid_option [JStr ''A'', JStr '' B '']) \<le> 10
      \<and> findUnique_poll db_none ''abc'' = None"
    by (simp add: create_req_def destructurable_def tq valid_option_JStr ta tb findUnique_poll_def
        db_none_def)
  have nb: "\<not> creatable ?bad"
    by (simp add: creatable_def valid_option_JStr ta ts)
  have b: "create_body (create_req (JStr ''Q?'') (JArr [JStr ''A'', JStr '' ''])) = Some ?bad
      \<and> destructurable ?bad \<and> \<not> creatable ?bad"
    using nb by (simp add: create_req_def destructurable_def)
  have cg: "creatable ?good"
    by (simp add: creatable_def tq valid_option_JStr ta tb)
  have c1: "POST_polls None ''abc'' 7 (create_req (JStr '' Q? '') (JArr [JStr ''A'', JStr '' B ''])) db_none
     = (CreatedJson ''abc'' ''Q?'' [''A'', ''B''] ''http://localhost:3000/poll/abc'',
        db_none\<lparr>polls := [\<lparr>poll_id = ''abc'', question = ''Q?'', options = [''A'', ''B''],
                             poll_createdAt = 7\<rparr>]\<rparr>)"
    using create_poll_accepts
            [of "create_req (JStr '' Q? '') (JArr [JStr ''A'', JStr '' B ''])" ?good "'' Q? ''"
                "[JStr ''A'', JStr '' B '']" db_none "''abc''" None 7,
             THEN conjunct1, THEN mp, OF g]
    by (simp add: tq valid_option_JStr ta tb shareUrl_def orElse_def db_none_def)
  have c2: "\<exists>e. POST_polls None ''abc'' 7 (create_req (JStr ''Q?'') (JArr [JStr ''A'', JStr '' ''])) db_none
          = (ErrorJson e 400, db_none)"
    by (rule create_poll_accepts
            [of "create_req (JStr ''Q?'') (JArr [JStr ''A'', JStr '' ''])" ?bad _ _ db_none "''abc''" None 7,
             THEN conjunct2, THEN conjunct1, THEN mp, OF b])
  show ?thesis
    using c1 nb c2 cg by (intro conjI)
qed

section \<open>Properties of the subscription registry\<close>

lemma forEach_enqueue_closed: "closed (forEach_enqueue pid m cs st) = closed st"
  by (induction cs arbitrary: st) (auto simp: enqueue_def split: option.splits)

lemma forEach_enqueue_connections:
  "connections st pid = Some xs \<Longrightarrow>
   connections (forEach_enqueue pid m cs st)
     = (connections st)(pid \<mapsto> filter (\<lambda>c. \<not> (c \<in> closed st \<and> c \<in> set cs)) xs)"
proof (induction cs arbitrary: st xs)
  case Nil
  then show ?case by (auto simp: fun_eq_iff)
next
  case (Cons c cs)
  show ?case
  proof (cases "c \<in> closed st")
    case True
    let ?st' = "st\<lparr>connections := (connections st)(pid \<mapsto> set_delete c xs)\<rparr>"
    have step: "forEach_enqueue pid m (c # cs) st = forEach_enqueue pid m cs ?st'"
      using True Cons.prems by (simp add: enqueue_def)
    have "connections ?st' pid = Some (set_delete c xs)" by simp
    from Cons.IH[OF this] have
      "connections (forEach_enqueue pid m cs ?st')
        = (connections ?st')(pid \<mapsto> filter (\<lambda>c'. \<not> (c' \<in> closed ?st' \<and> c' \<in> set cs)) (set_delete c xs))" .
    moreover have "filter (\<lambda>c'. \<not> (c' \<in> closed st \<and> c' \<in> set cs)) (set_delete c xs)
        = filter (\<lambda>c'. \<not> (c' \<in> closed st \<and> c' \<in> set (c # cs))) xs"
      using True by (induction xs) (auto simp: set_delete_def)
    ultimately show ?thesis
      unfolding step by simp
  next
    case False
    let ?st' = "st\<lparr>enqueued := (enqueued st)(c := enqueued st c @ [m])\<rparr>"
    have step: "forEach_enqueue pid m (c # cs) st = forEach_enqueue pid m cs ?st'"
      using False by (simp add: enqueue_def)
    have "connections ?st' pid = Some xs" using Cons.prems by simp
    from Cons.IH[OF this] have
      "connections (forEach_enqueue pid m cs ?st')
        = (connections ?st')(pid \<mapsto> filter (\<lambda>c'. \<not> (c' \<in> closed ?st' \<and> c' \<in> set cs)) xs)" .
    moreover have "filter (\<lambda>c'. \<not> (c' \<in> closed st \<and> c' \<in> set cs)) xs
        = filter (\<lambda>c'. \<not> (c' \<in> closed st \<and> c' \<in> set (c # cs))) xs"
      using False by (induction xs) auto
    ultimately show ?thesis
      unfolding step by simp
  qed
qed

lemma forEach_step_closed:
  "closed (case enqueue a m st of Some st' \<Rightarrow> st'
     | None \<Rightarrow> (case connections st pid of None \<Rightarrow> st
         | Some pollConnections \<Rightarrow>
             st\<lparr>connections := (connections st)(pid \<mapsto> set_delete a pollConnections)\<rparr>))
   = closed st"
  by (auto simp: enqueue_def split: option.splits)

lemma forEach_enqueue_keeps:
  "set (enqueued st c) \<subseteq> set (enqueued (forEach_enqueue pid m cs st) c)"
proof (induction cs arbitrary: st)
  case Nil
  then show ?case by simp
next
  case (Cons a cs)
  let ?st' = "case enqueue a m st of Some st' \<Rightarrow> st'
     | None \<Rightarrow> (case connections st pid of None \<Rightarrow> st
         | Some pollConnections \<Rightarrow>
             st\<lparr>connections := (connections st)(pid \<mapsto> set_delete a pollConnections)\<rparr>)"
  have "set (enqueued st c) \<subseteq> set (enqueued ?st' c)"
    by (auto simp: enqueue_def split: option.splits)
  then show ?case
    using Cons.IH[of ?st'] by auto
qed

lemma forEach_enqueue_delivers:
  "c \<in> set cs \<Longrightarrow> c \<notin> closed st \<Longrightarrow> m \<in> set (enqueued (forEach_enqueue pid m cs st) c)"
proof (induction cs arbitrary: st)
  case Nil
  then show ?case by simp
next
  case (Cons a cs)
  let ?st' = "case enqueue a m st of Some st' \<Rightarrow> st'
     | None \<Rightarrow> (case connections st pid of None \<Rightarrow> st
         | Some pollConnections \<Rightarrow>
             st\<lparr>connections := (connections st)(pid \<mapsto> set_delete a pollConnections)\<rparr>)"
  have cl: "c \<notin> closed ?st'"
    using Cons.prems(2) forEach_step_closed[where a=a and m=m and st=st and pid=pid] by simp
  show ?case
  proof (cases "c = a")
    case True
    then have "m \<in> set (enqueued ?st' c)"
      using Cons.prems(2) by (simp add: enqueue_def)
    then show ?thesis
      using forEach_enqueue_keeps[of ?st' c pid m cs] by auto
  next
    case False
    then have "c \<in> set cs" using Cons.prems(1) by simp
    from Cons.IH[OF this cl] show ?thesis by simp
  qed
qed

lemma broadcast_connections:
  "connections (broadcastPollUpdate d pid st) =
     (case connections st pid of
        None \<Rightarrow> connections st
      | Some cs \<Rightarrow>
          if cs = [] \<or> update_message d pid = None then connections st
          else (connections st)(pid \<mapsto> filter (\<lambda>c. c \<notin> closed st) cs))"
proof (cases "connections st pid")
  case None
  then show ?thesis by (simp add: broadcastPollUpdate_def)
next
  case (Some cs)
  have f: "filter (\<lambda>c. c \<in> closed st \<longrightarrow> c \<notin> set cs) cs = filter (\<lambda>c. c \<notin> closed st) cs"
    by (rule filter_cong) auto
  show ?thesis
    using Some forEach_enqueue_connections[OF Some, of _ cs]
    by (auto simp: broadcastPollUpdate_def f split: option.splits)
qed

lemma broadcast_delivers:
  assumes "connections st pid = Some cs" and "update_message d pid = Some m"
    and "c \<in> set cs" and "c \<notin> closed st"
  shows "m \<in> set (enqueued (broadcastPollUpdate d pid st) c)"
proof -
  have "cs \<noteq> []" using assms(3) by auto
  then have "broadcastPollUpdate d pid st = forEach_enqueue pid m cs st"
    using assms(1,2) by (simp add: broadcastPollUpdate_def)
  then show ?thesis
    using forEach_enqueue_delivers[OF assms(3,4)] by simp
qed

lemma subscribe_connections:
  "connections (subscribe pid c st) =
     (connections st)(pid \<mapsto> set_add c (case connections st pid of None \<Rightarrow> [] | Some cs \<Rightarrow> cs))"
  by (auto simp: subscribe_def Let_def fun_eq_iff split: option.splits)

lemma set_add_nonempty: "set_add c cs \<noteq> []"
  by (auto simp: set_add_def)

lemma subscribe_no_empty_set:
  "no_empty_set st \<Longrightarrow> no_empty_set (subscribe pid c st)"
  by (auto simp: no_empty_set_def subscribe_connections set_add_nonempty)

lemma on_abort_connections:
  "connections (on_abort pid c st) =
     (case connections st pid of
        None \<Rightarrow> connections st
      | Some cs \<Rightarrow>
          if set_delete c cs = [] then (connections st)(pid := None)
          else (connections st)(pid \<mapsto> set_delete c cs))"
  by (auto simp: on_abort_def Let_def split: option.splits)

lemma on_abort_no_empty_set:
  "no_empty_set st \<Longrightarrow> no_empty_set (on_abort pid c st)"
  by (auto simp: no_empty_set_def on_abort_connections split: option.splits)

lemma on_abort_clears: "connections (on_abort pid c st) pid \<noteq> Some []"
  by (auto simp: on_abort_connections split: option.splits)

lemma sendPollUpdate_connections: "connections (sendPollUpdate d pid c st) = connections st"
  by (auto simp: sendPollUpdate_def enqueue_def split: option.splits)

lemma GET_stream_no_empty_set:
  "no_empty_set st \<Longrightarrow> no_empty_set (snd (GET_stream d pid c st))"
  using subscribe_no_empty_set[of st pid c]
  by (auto simp: GET_stream_def Let_def no_empty_set_def sendPollUpdate_connections enqueue_def
      split: option.splits if_splits)

text \<open>
  Claim C7, as stated: every operation on the registry keeps it free of empty sets, and
  a write failure during publish removes the failing handle as the disconnect cleanup
  does, deleting the set of the poll once it is empty. With one registered controller
  whose \<^verbatim>\<open>enqueue\<close> throws, the broadcast leaves the poll mapped to the empty set; the
  disconnect cleanup of the same controller would have removed the entry.
\<close>

theorem publish_failure_counterexample:
  "no_empty_set streams_stale
   \<and> connections (broadcastPollUpdate db_fresh ''p1'' streams_stale) ''p1'' = Some []
   \<and> \<not> no_empty_set (broadcastPollUpdate db_fresh ''p1'' streams_stale)
   \<and> connections (on_abort ''p1'' 1 streams_stale) ''p1'' = None"
proof -
  have a: "no_empty_set streams_stale"
    by (simp add: no_empty_set_def poll_AB_def db_fresh_def streams_stale_def)
  have b: "connections (broadcastPollUpdate db_fresh ''p1'' streams_stale) ''p1'' = Some []"
    by (simp add: broadcastPollUpdate_def update_message_def findUnique_poll_def
        findMany_votes_def enqueue_def set_delete_def poll_AB_def db_fresh_def streams_stale_def Let_def)
  have c: "\<not> no_empty_set (broadcastPollUpdate db_fresh ''p1'' streams_stale)"
    using b by (auto simp: no_empty_set_def)
  have d: "connections (on_abort ''p1'' 1 streams_stale) ''p1'' = None"
    by (simp add: on_abort_def set_delete_def poll_AB_def db_fresh_def streams_stale_def Let_def)
  show ?thesis using a b c d by (intro conjI)
qed

text \<open>
  Claim C7, amended: subscribing (also through the stream route) and the disconnect
  cleanup keep the registry free of empty sets; subscribing registers the handle, and
  after a disconnect cleanup the poll is not mapped to an empty set. A broadcast
  changes the registry at its own poll only: it removes exactly the handles whose write
  fails and keeps the set registered, also when no handle is left; every other handle
  of the poll gets the message.
\<close>

theorem registry_operations:
  "(no_empty_set st \<longrightarrow>
      no_empty_set (subscribe pid c st) \<and> no_empty_set (snd (GET_stream d pid c st))
      \<and> no_empty_set (on_abort pid c st))
   \<and> (\<exists>cs. connections (subscribe pid c st) pid = Some cs \<and> c \<in> set cs)
   \<and> connections (on_abort pid c st) pid \<noteq> Some []
   \<and> connections (broadcastPollUpdate d pid st) =
       (case connections st pid of
          None \<Rightarrow> connections st
        | Some cs \<Rightarrow>
            if cs = [] \<or> update_message d pid = None then connections st
            else (connections st)(pid \<mapsto> filter (\<lambda>c. c \<notin> closed st) cs))
   \<and> (connections st pid = Some cs \<and> update_message d pid = Some m \<and> k \<in> set cs
        \<and> k \<notin> closed st \<longrightarrow>
      m \<in> set (enqueued (broadcastPollUpdate d pid st) k))"
proof (intro conjI impI)
  assume "no_empty_set st"
  then show "no_empty_set (subscribe pid c st)"
    and "no_empty_set (snd (GET_stream d pid c st))"
    and "no_empty_set (on_abort pid c st)"
    by (simp_all add: subscribe_no_empty_set GET_stream_no_empty_set on_abort_no_empty_set)
next
  show "\<exists>cs. connections (subscribe pid c st) pid = Some cs \<and> c \<in> set cs"
    by (simp add: subscribe_connections set_add_def)
next
  show "connections (on_abort pid c st) pid \<noteq> Some []"
    by (rule on_abort_clears)
next
  show "connections (broadcastPollUpdate d pid st) =
       (case connections st pid of
          None \<Rightarrow> connections st
        | Some cs \<Rightarrow>
            if cs = [] \<or> update_message d pid = None then connections st
            else (connections st)(pid \<mapsto> filter (\<lambda>c. c \<notin> closed st) cs))"
    by (rule broadcast_connections)
next
  assume "connections st pid = Some cs \<and> update_message d pid = Some m \<and> k \<in> set cs
        \<and> k \<notin> closed st"
  then show "m \<in> set (enqueued (broadcastPollUpdate d pid st) k)"
    using broadcast_delivers[of st pid cs d m k] by simp
qed

theorem registry_operations_witness:
  "no_empty_set streams_two
   \<and> no_empty_set (subscribe ''p1'' 3 streams_two)
   \<and> no_empty_set (snd (GET_stream db_fresh ''p1'' 3 streams_two))
   \<and> no_empty_set (on_abort ''p1'' 3 streams_two)
   \<and> connections streams_two ''p1'' = Some [1, 2]
   \<and> update_message db_fresh ''p1'' = Some (Update [0, 0] 0)
   \<and> 2 \<notin> closed streams_two
   \<and> Update [0, 0] 0 \<in> set (enqueued (broadcastPollUpdate db_fresh ''p1'' streams_two) 2)
   \<and> connections (broadcastPollUpdate db_fresh ''p1'' streams_two) = [''p1'' \<mapsto> [2]]"
proof -
  note T = registry_operations
             [of streams_two "''p1''" 3 db_fresh "[1, 2]" "Update [0, 0] 0" 2]
  have h1: "no_empty_set streams_two"
    by (simp add: no_empty_set_def poll_AB_def db_fresh_def streams_two_def)
  have h2: "connections streams_two ''p1'' = Some [1, 2]" and h4: "2 \<notin> closed streams_two"
    by (simp_all add: poll_AB_def db_fresh_def streams_two_def)
  have h3: "update_message db_fresh ''p1'' = Some (Update [0, 0] 0)"
    by (simp add: update_message_def findUnique_poll_def findMany_votes_def count_votes_def
        poll_AB_def db_fresh_def streams_two_def Let_def)
  have c1: "no_empty_set (subscribe ''p1'' 3 streams_two)
      \<and> no_empty_set (snd (GET_stream db_fresh ''p1'' 3 streams_two))
      \<and> no_empty_set (on_abort ''p1'' 3 streams_two)"
    by (rule T [THEN conjunct1, THEN mp, OF h1])
  have c2: "Update [0, 0] 0 \<in> set (enqueued (broadcastPollUpdate db_fresh ''p1'' streams_two) 2)"
    using T [THEN conjunct2, THEN conjunct2, THEN conjunct2, THEN conjunct2, THEN mp] h2 h3 h4
    by simp
  have c3: "connections (broadcastPollUpdate db_fresh ''p1'' streams_two) = [''p1'' \<mapsto> [2]]"
    using T [THEN conjunct2, THEN conjunct2, THEN conjunct2, THEN conjunct1] h3
    by (simp add: poll_AB_def db_fresh_def streams_two_def)
  show ?thesis
    using h1 c1 h2 h3 h4 c2 c3 by (intro conjI) simp_all
qed

section \<open>Properties of the percentage\<close>

text \<open>
  The exponent is the one of the binary representation, and rounding to a double
  changes a positive number by at most the fraction \<^verbatim>\<open>2^-53\<close> of it.
\<close>

lemma exponent_bounds:
  assumes "0 < x"
  shows "2 powi exponent x \<le> x \<and> x < 2 powi (exponent x + 1)"
proof (cases "1 \<le> x")
  case True
  define n where "n = nat \<lfloor>x\<rfloor>"
  define k where "k = floorlog 2 n"
  have n: "0 < n" using True by (simp add: n_def)
  have b: "2 ^ (k - 1) \<le> n \<and> n < 2 ^ k"
    unfolding k_def using floorlog_bounds[of n 2] n by simp
  have k: "1 \<le> k"
    using b n by (cases k) auto
  have e: "exponent x = int (k - 1)"
    using True k by (simp add: exponent_def k_def n_def)
  have nx: "rat_of_nat n = of_int \<lfloor>x\<rfloor>"
    using True by (simp add: n_def)
  have lo: "(2 :: rat) ^ (k - 1) \<le> x"
  proof -
    have "(2 :: rat) ^ (k - 1) = rat_of_nat (2 ^ (k - 1))" by simp
    also have "\<dots> \<le> rat_of_nat n" using b of_nat_le_iff by blast
    also have "\<dots> \<le> x" by (simp add: nx)
    finally show ?thesis .
  qed
  have hi: "x < (2 :: rat) ^ k"
  proof -
    have "n + 1 \<le> 2 ^ k" using b by simp
    then have "rat_of_nat (n + 1) \<le> rat_of_nat (2 ^ k)" using of_nat_le_iff by blast
    then have "rat_of_nat n + 1 \<le> 2 ^ k" by simp
    moreover have "x < rat_of_nat n + 1" unfolding nx by linarith
    ultimately show ?thesis by linarith
  qed
  have e1: "exponent x + 1 = int k" using k by (simp add: e)
  have "(2 :: rat) powi exponent x = 2 ^ (k - 1)"
    by (simp only: e power_int_of_nat)
  moreover have "(2 :: rat) powi (exponent x + 1) = 2 ^ k"
    by (simp only: e1 power_int_of_nat)
  ultimately show ?thesis
    using lo hi by simp
next
  case False
  define y where "y = 1 / x"
  define m where "m = nat (\<lceil>y\<rceil> - 1)"
  define k where "k = floorlog 2 m"
  have y: "1 < y" using False assms by (simp add: y_def)
  then have cy: "2 \<le> \<lceil>y\<rceil>" by (simp add: le_ceiling_iff)
  then have m: "0 < m" by (simp add: m_def)
  have b: "2 ^ (k - 1) \<le> m \<and> m < 2 ^ k"
    unfolding k_def using floorlog_bounds[of m 2] m by simp
  have k: "1 \<le> k"
    using b m by (cases k) auto
  have e: "exponent x = - int k"
    using False by (simp add: exponent_def k_def m_def y_def)
  have my: "rat_of_nat m = of_int \<lceil>y\<rceil> - 1"
    using cy by (simp add: m_def)
  have up: "y \<le> (2 :: rat) ^ k"
  proof -
    have "m + 1 \<le> 2 ^ k" using b by simp
    then have "rat_of_nat (m + 1) \<le> rat_of_nat (2 ^ k)" using of_nat_le_iff by blast
    then have "rat_of_nat m + 1 \<le> 2 ^ k" by simp
    moreover have "y \<le> rat_of_nat m + 1" unfolding my by simp
    ultimately show ?thesis by linarith
  qed
  have dn: "(2 :: rat) ^ (k - 1) < y"
  proof -
    have "(2 :: rat) ^ (k - 1) = rat_of_nat (2 ^ (k - 1))" by simp
    also have "\<dots> \<le> rat_of_nat m" using b of_nat_le_iff by blast
    also have "\<dots> < y" unfolding my by linarith
    finally show ?thesis .
  qed
  have xy: "x = 1 / y"
    by (simp add: y_def)
  have p0: "(2 :: rat) powi (- int k) = 1 / 2 ^ k"
    by (simp only: power_int_minus power_int_of_nat inverse_eq_divide)
  have k1: "- int k + 1 = - int (k - 1)" using k by simp
  have p1: "(2 :: rat) powi (- int k + 1) = 1 / 2 ^ (k - 1)"
    by (simp only: k1 power_int_minus power_int_of_nat inverse_eq_divide)
  have lo: "2 powi (- int k) \<le> x"
    unfolding p0 xy using up y by (simp add: frac_le)
  have hi: "x < 2 powi (- int k + 1)"
    unfolding p1 xy using dn by (simp add: frac_less2)
  show ?thesis unfolding e using lo hi by (rule conjI)
qed

lemma round_half_even_error: "\<bar>of_int (round_half_even y) - y\<bar> \<le> 1 / 2"
proof -
  define f where "f = \<lfloor>y\<rfloor>"
  define r where "r = y - of_int f"
  have r: "0 \<le> r" "r < 1" unfolding r_def f_def by linarith+
  have rhe: "round_half_even y =
      (if r < 1 / 2 then f else if 1 / 2 < r then f + 1 else if even f then f else f + 1)"
    unfolding round_half_even_def Let_def r_def f_def by (rule refl)
  have d0: "of_int f - y = - r" and d1: "of_int (f + 1) - y = 1 - r"
    by (simp_all add: r_def)
  consider "r < 1 / 2" | "1 / 2 < r" | "r = 1 / 2" by linarith
  then show ?thesis
  proof cases
    case 1
    then have "round_half_even y = f" unfolding rhe by simp
    then have "of_int (round_half_even y) - y = - r" using d0 by simp
    then show ?thesis using r 1 by linarith
  next
    case 2
    then have "round_half_even y = f + 1" unfolding rhe by simp
    then have "of_int (round_half_even y) - y = 1 - r" using d1 by simp
    then show ?thesis using r 2 by linarith
  next
    case 3
    then have "round_half_even y = f \<or> round_half_even y = f + 1" unfolding rhe by simp
    then show ?thesis
    proof
      assume "round_half_even y = f"
      then have "of_int (round_half_even y) - y = - r" using d0 by simp
      then show ?thesis using 3 by linarith
    next
      assume "round_half_even y = f + 1"
      then have "of_int (round_half_even y) - y = 1 - r" using d1 by simp
      then show ?thesis using 3 by linarith
    qed
  qed
qed

lemma to_double_error:
  assumes "0 < x"
  shows "\<bar>to_double x - x\<bar> \<le> x / 2 ^ 53"
proof -
  define u :: rat where "u = 2 powi (exponent x - 52)"
  have u: "0 < u" by (simp add: u_def)
  have td: "to_double x = of_int (round_half_even (x / u)) * u"
    using assms by (simp add: to_double_def u_def)
  have "to_double x - x = (of_int (round_half_even (x / u)) - x / u) * u"
    using u by (simp add: td algebra_simps)
  then have "\<bar>to_double x - x\<bar> = \<bar>of_int (round_half_even (x / u)) - x / u\<bar> * u"
    using u by (simp add: abs_mult)
  also have "\<dots> \<le> 1 / 2 * u"
    using round_half_even_error[of "x / u"] u by (simp add: mult_right_mono)
  also have "\<dots> = 2 powi exponent x / 2 ^ 53"
  proof -
    have "(2 :: rat) powi (exponent x - 52) = 2 powi exponent x / 2 powi 52"
      by (simp add: power_int_diff)
    then show ?thesis by (simp add: u_def)
  qed
  also have "\<dots> \<le> x / 2 ^ 53"
    using exponent_bounds[OF assms] by (simp add: divide_right_mono)
  finally show ?thesis .
qed

lemma to_double_zero: "to_double 0 = 0"
  by (simp add: to_double_def)

lemma product_close:
  assumes "0 < tot" and "cnt \<le> tot"
  shows "\<bar>to_double (to_double (rat_of_nat cnt / rat_of_nat tot) * 100)
           - 100 * rat_of_nat cnt / rat_of_nat tot\<bar> < 1 / 2 ^ 45"
proof (cases "cnt = 0")
  case True
  then show ?thesis by (simp add: to_double_zero)
next
  case False
  define q where "q = rat_of_nat cnt / rat_of_nat tot"
  define d1 where "d1 = to_double q"
  define p where "p = d1 * 100"
  define d2 where "d2 = to_double p"
  have q: "0 < q" "q \<le> 1"
    using assms False by (simp_all add: q_def)
  have e1: "\<bar>d1 - q\<bar> \<le> q / 2 ^ 53"
    unfolding d1_def using q(1) by (rule to_double_error)
  have q53: "q / 2 ^ 53 \<le> 1 / 2 ^ 53" "q / 2 ^ 53 < q"
    using q by (simp_all add: divide_right_mono)
  have d1: "0 < d1" "d1 \<le> 1 + 1 / 2 ^ 53"
    using e1 q53 q by linarith+
  have p: "0 < p" "p \<le> 100 + 100 / 2 ^ 53"
    using d1 by (simp_all add: p_def)
  have e2: "\<bar>d2 - p\<bar> \<le> p / 2 ^ 53"
    unfolding d2_def using p(1) by (rule to_double_error)
  have p53: "p / 2 ^ 53 \<le> (100 + 100 / 2 ^ 53) / 2 ^ 53"
    using p(2) by (simp add: divide_right_mono)
  have pq: "\<bar>p - 100 * q\<bar> \<le> 100 / 2 ^ 53"
  proof -
    have "p - 100 * q = 100 * (d1 - q)" by (simp add: p_def algebra_simps)
    then have "\<bar>p - 100 * q\<bar> = \<bar>100 * (d1 - q)\<bar>" by (rule arg_cong)
    also have "\<dots> = 100 * \<bar>d1 - q\<bar>" by (simp only: abs_mult abs_numeral)
    also have "\<dots> \<le> 100 * (1 / 2 ^ 53)" using e1 q53(1) by simp
    finally show ?thesis by simp
  qed
  have "\<bar>d2 - 100 * q\<bar> \<le> \<bar>d2 - p\<bar> + \<bar>p - 100 * q\<bar>" by linarith
  also have "\<dots> \<le> (100 + 100 / 2 ^ 53) / 2 ^ 53 + 100 / 2 ^ 53"
    using e2 p53 pq by linarith
  also have "\<dots> < 1 / 2 ^ 45" by simp
  finally have "\<bar>d2 - 100 * q\<bar> < 1 / 2 ^ 45" .
  then show ?thesis
    by (simp add: d2_def p_def d1_def q_def)
qed

lemma half_up_split:
  assumes "0 < tot"
  shows "100 * rat_of_nat cnt / rat_of_nat tot + 1 / 2
           = of_int (round (100 * rat_of_nat cnt / rat_of_nat tot))
             + rat_of_nat ((200 * cnt + tot) mod (2 * tot)) / rat_of_nat (2 * tot)"
proof -
  define m where "m = 200 * cnt + tot"
  define D where "D = 2 * tot"
  have D: "0 < D" using assms by (simp add: D_def)
  have z: "100 * rat_of_nat cnt / rat_of_nat tot + 1 / 2 = rat_of_nat m / rat_of_nat D"
    using assms by (simp add: m_def D_def field_simps)
  have fl: "\<lfloor>rat_of_nat m / rat_of_nat D\<rfloor> = int (m div D)"
    by (simp add: floor_divide_of_nat_eq)
  have rd: "round (100 * rat_of_nat cnt / rat_of_nat tot) = int (m div D)"
    unfolding round_def z fl by (rule refl)
  have "m = D * (m div D) + m mod D" by simp
  then have "rat_of_nat m = rat_of_nat (D * (m div D) + m mod D)" by simp
  then have "rat_of_nat m = rat_of_nat D * rat_of_nat (m div D) + rat_of_nat (m mod D)"
    by (simp only: of_nat_add of_nat_mult)
  then have "rat_of_nat m / rat_of_nat D = rat_of_nat (m div D) + rat_of_nat (m mod D) / rat_of_nat D"
    using D by (simp add: field_simps)
  then show ?thesis
    unfolding z rd by (simp add: m_def D_def)
qed

text \<open>
  Claim C8, as stated: the percentage is 100 * count / total rounded to an integer, and
  0 when the total is zero. For 23 votes of 40 the quotient 23 / 40 is not a double; the
  nearest double is below it, the product with 100 is a double below 57.5, and the page
  shows 57, where 100 * 23 / 40 = 57.5 rounds to 58.
\<close>

theorem tie_percentage_counterexample:
  "getPercentage 23 40 = 57 \<and> round (100 * rat_of_nat 23 / rat_of_nat 40) = 58"
proof
  show "getPercentage 23 40 = 57"
    by code_simp
  have "round (100 * rat_of_nat 23 / rat_of_nat 40) = round (115 / 2 :: rat)"
    by simp
  also have "\<dots> = 58"
    by (simp add: round_def floor_eq_iff)
  finally show "round (100 * rat_of_nat 23 / rat_of_nat 40) = 58" .
qed

text \<open>
  Claim C8, amended: the percentage is \<^verbatim>\<open>Math.round((count / total) * 100)\<close> in double
  arithmetic. It is 0 when the total is zero, whatever the count, and an integer in
  every case. For a total below \<^verbatim>\<open>2^44\<close> and a count up to the total it is
  100 * count / total rounded to the nearest integer, unless that value lies exactly
  halfway between two integers: then it is the upper of the two, as rounding a tie up
  gives, or the lower one.
\<close>

theorem percentage_in_doubles:
  "getPercentage cnt 0 = 0
   \<and> (0 < tot \<and> tot < 2 ^ 44 \<and> cnt \<le> tot \<and> \<not> exact_tie cnt tot \<longrightarrow>
        getPercentage cnt tot = round (100 * rat_of_nat cnt / rat_of_nat tot))
   \<and> (0 < tot \<and> tot < 2 ^ 44 \<and> cnt \<le> tot \<and> exact_tie cnt tot \<longrightarrow>
        getPercentage cnt tot = round (100 * rat_of_nat cnt / rat_of_nat tot)
        \<or> getPercentage cnt tot = round (100 * rat_of_nat cnt / rat_of_nat tot) - 1)"
proof (intro conjI impI)
  show "getPercentage cnt 0 = 0"
    by (simp add: getPercentage_def)
next
  assume a: "0 < tot \<and> tot < 2 ^ 44 \<and> cnt \<le> tot \<and> \<not> exact_tie cnt tot"
  define y where "y = to_double (to_double (rat_of_nat cnt / rat_of_nat tot) * 100)"
  define n where "n = round (100 * rat_of_nat cnt / rat_of_nat tot)"
  define r where "r = (200 * cnt + tot) mod (2 * tot)"
  define D where "D = 2 * tot"
  have close: "\<bar>y - 100 * rat_of_nat cnt / rat_of_nat tot\<bar> < 1 / 2 ^ 45"
    unfolding y_def using a by (intro product_close) simp_all
  have split: "100 * rat_of_nat cnt / rat_of_nat tot + 1 / 2 = of_int n + rat_of_nat r / rat_of_nat D"
    unfolding n_def r_def D_def using a by (intro half_up_split) simp
  have D: "0 < D" "D < 2 ^ 45" using a by (simp_all add: D_def)
  have r: "1 \<le> r" "r + 1 \<le> D"
    using a D(1) by (auto simp: r_def D_def exact_tie_def Suc_le_eq)
  have small: "1 / 2 ^ 45 < 1 / rat_of_nat D"
  proof -
    have "rat_of_nat D < rat_of_nat (2 ^ 45)" using D(2) of_nat_less_iff by blast
    then have "rat_of_nat D < 2 ^ 45" by simp
    then show ?thesis using D(1) by (simp add: frac_less2)
  qed
  have lo: "1 / rat_of_nat D \<le> rat_of_nat r / rat_of_nat D"
    using r(1) D(1) by (simp add: divide_right_mono)
  have hi: "rat_of_nat r / rat_of_nat D \<le> 1 - 1 / rat_of_nat D"
  proof -
    have "rat_of_nat (r + 1) \<le> rat_of_nat D" using r(2) of_nat_le_iff by blast
    then have "rat_of_nat r \<le> rat_of_nat D - 1" by simp
    then have "rat_of_nat r / rat_of_nat D \<le> (rat_of_nat D - 1) / rat_of_nat D"
      using D(1) by (simp add: divide_right_mono)
    also have "\<dots> = 1 - 1 / rat_of_nat D" using D(1) by (simp add: field_simps)
    finally show ?thesis .
  qed
  have "of_int n \<le> y + 1 / 2" "y + 1 / 2 < of_int n + 1"
    using close split small lo hi by linarith+
  then have "\<lfloor>y + 1 / 2\<rfloor> = n" by (simp add: floor_eq_iff)
  then show "getPercentage cnt tot = round (100 * rat_of_nat cnt / rat_of_nat tot)"
    using a by (simp add: getPercentage_def Math_round_def y_def n_def)
next
  assume a: "0 < tot \<and> tot < 2 ^ 44 \<and> cnt \<le> tot \<and> exact_tie cnt tot"
  define y where "y = to_double (to_double (rat_of_nat cnt / rat_of_nat tot) * 100)"
  define n where "n = round (100 * rat_of_nat cnt / rat_of_nat tot)"
  have close: "\<bar>y - 100 * rat_of_nat cnt / rat_of_nat tot\<bar> < 1 / 2 ^ 45"
    unfolding y_def using a by (intro product_close) simp_all
  have split: "100 * rat_of_nat cnt / rat_of_nat tot + 1 / 2 = of_int n"
    using half_up_split[of tot cnt] a by (simp add: n_def exact_tie_def)
  have eps: "(1 :: rat) / 2 ^ 45 < 1" by simp
  have "of_int (n - 1) \<le> y + 1 / 2" "y + 1 / 2 < of_int n + 1"
    using close split eps by (simp_all, linarith+)
  then have "\<lfloor>y + 1 / 2\<rfloor> = n \<or> \<lfloor>y + 1 / 2\<rfloor> = n - 1"
    by (metis floor_eq_iff of_int_diff of_int_1 diff_add_cancel le_less_linear)
  then show "getPercentage cnt tot = round (100 * rat_of_nat cnt / rat_of_nat tot)
        \<or> getPercentage cnt tot = round (100 * rat_of_nat cnt / rat_of_nat tot) - 1"
    using a by (simp add: getPercentage_def Math_round_def y_def n_def)
qed

theorem percentage_in_doubles_witness:
  "0 < (3 :: nat) \<and> (3 :: nat) < 2 ^ 44 \<and> (1 :: nat) \<le> 3 \<and> \<not> exact_tie 1 3
   \<and> getPercentage 1 3 = round (100 * rat_of_nat 1 / rat_of_nat 3)
   \<and> round (100 * rat_of_nat 1 / rat_of_nat 3) = 33
   \<and> 0 < (40 :: nat) \<and> (40 :: nat) < 2 ^ 44 \<and> (23 :: nat) \<le> 40 \<and> exact_tie 23 40
   \<and> (getPercentage 23 40 = round (100 * rat_of_nat 23 / rat_of_nat 40)
       \<or> getPercentage 23 40 = round (100 * rat_of_nat 23 / rat_of_nat 40) - 1)"
proof -
  have h1: "0 < (3 :: nat) \<and> (3 :: nat) < 2 ^ 44 \<and> (1 :: nat) \<le> 3 \<and> \<not> exact_tie 1 3"
    by (simp add: exact_tie_def)
  have h2: "0 < (40 :: nat) \<and> (40 :: nat) < 2 ^ 44 \<and> (23 :: nat) \<le> 40 \<and> exact_tie 23 40"
    by (simp add: exact_tie_def)
  have v: "round (100 * rat_of_nat 1 / rat_of_nat 3) = 33"
    by (simp add: round_def floor_eq_iff)
  have c1: "getPercentage 1 3 = round (100 * rat_of_nat 1 / rat_of_nat 3)"
    by (rule percentage_in_doubles [of 1 3, THEN conjunct2, THEN conjunct1, THEN mp, OF h1])
  have c2: "getPercentage 23 40 = round (100 * rat_of_nat 23 / rat_of_nat 40)
       \<or> getPercentage 23 40 = round (100 * rat_of_nat 23 / rat_of_nat 40) - 1"
    by (rule percentage_in_doubles [of 23 40, THEN conjunct2, THEN conjunct2, THEN mp, OF h2])
  show ?thesis
    using h1 c1 v h2 c2 by (intro conjI) simp_all
qed

end
